theory Spec2Isabelle
  imports Complex_Main "HOL-Library.Multiset" "HOL-Library.AList"
begin

section \<open>Values, configuration and the object store\<close>

text \<open>
  The annotation tool is a Google Apps Script (\<^verbatim>\<open>apps-script/do_get.gs\<close>, and its
  older sibling \<^verbatim>\<open>apps-script/do_get.js\<close>). A spreadsheet cell read by the script holds
  a text or a number. Numbers are modelled by rationals, which contain every finite
  double, with the same order; a cell holds no \<^verbatim>\<open>NaN\<close> and no infinity. (A cell can also
  hold a boolean or a date; both are left out, and wherever the script looks at a cell
  they behave as a number does.) A JavaScript string is modelled by a \<^typ>\<open>string\<close>,
  one \<^typ>\<open>char\<close> for each code unit.
\<close>

datatype cell = Str string | Num rat

text \<open>
  The faults of the script: a JavaScript \<^verbatim>\<open>TypeError\<close> (a property read on
  \<^verbatim>\<open>undefined\<close> or \<^verbatim>\<open>null\<close>, a call of something that is no function), and an
  exception thrown by a service of the platform. Nothing in the script catches either.
\<close>

datatype error = TypeError | ServiceException

record response =
  responseCode :: nat
  contentText :: string

type_synonym storage = "string \<Rightarrow> response"

text \<open>
  \<^verbatim>\<open>pdfId\<close> and \<^verbatim>\<open>bucketUrl\<close> are globals computed once from the configuration
  constants; the model takes them as given.
\<close>

record config =
  pdfId :: string
  bucketUrl :: string

subsection \<open>The batch suffix: \<^verbatim>\<open>('000' + i).slice(-3)\<close>\<close>

text \<open>
  The loop counter \<^verbatim>\<open>i\<close> is a JavaScript number that starts at 1 and grows by 100. It
  is modelled by a natural number: the additions are exact below \<open>2^53\<close>, which the
  counter does not reach in any run the platform lets finish. \<^verbatim>\<open>'000' + i\<close> appends the
  decimal digits of \<^verbatim>\<open>i\<close>, and \<^verbatim>\<open>slice(-3)\<close> keeps the last three characters.
\<close>

definition digitChar :: "nat \<Rightarrow> char" where
  "digitChar d = char_of (48 + d)"

fun natToString :: "nat \<Rightarrow> string" where
  "natToString n =
     (if n < 10 then [digitChar n] else natToString (n div 10) @ [digitChar (n mod 10)])"

definition sliceLast3 :: "string \<Rightarrow> string" where
  "sliceLast3 s = drop (length s - 3) s"

definition batchSuffix :: "nat \<Rightarrow> string" where
  "batchSuffix i = sliceLast3 (''000'' @ natToString i)"

definition batchId :: "config \<Rightarrow> nat \<Rightarrow> string" where
  "batchId cfg i = pdfId cfg @ ''-'' @ batchSuffix i"

definition urlFeature :: "config \<Rightarrow> nat \<Rightarrow> string" where
  "urlFeature cfg i = bucketUrl cfg @ batchId cfg i @ ''-features.csv''"

definition urlLabel :: "config \<Rightarrow> nat \<Rightarrow> string" where
  "urlLabel cfg i = bucketUrl cfg @ batchId cfg i @ ''-labels.csv''"

subsection \<open>The download loop of \<^verbatim>\<open>downloadLabels\<close>\<close>

text \<open>
  \<^verbatim>\<open>authFetch(url)\<close> with one argument is a GET with muted HTTP exceptions: it returns
  the response whatever its status. The store is a function from URLs to responses; it
  does not change while the loop runs. The bearer token that \<^verbatim>\<open>authFetch\<close> sends is read
  from \<^verbatim>\<open>storageService\<close>, the OAuth2 service object; no file at hand declares it at top
  level, and the model takes it as given.
\<close>

definition authFetch :: "storage \<Rightarrow> string \<Rightarrow> response" where
  "authFetch store url = store url"

text \<open>
  \<^verbatim>\<open>for (var i = 1; true; i += 100)\<close> has no bound, so the model takes fuel: one unit for
  each iteration. The result is \<open>None\<close> when the fuel runs out before the \<^verbatim>\<open>break\<close>, and
  the text of \<^verbatim>\<open>csv\<close> otherwise. The second component is the list of the URLs
  requested so far, in the order of the requests.
\<close>

fun downloadLoop_gs ::
  "nat \<Rightarrow> storage \<Rightarrow> config \<Rightarrow> nat \<Rightarrow> string \<Rightarrow> string list \<Rightarrow> string option \<times> string list"
where
  "downloadLoop_gs 0 store cfg i csv reqs = (None, reqs)"
| "downloadLoop_gs (Suc fuel) store cfg i csv reqs =
     (let respFeature = authFetch store (urlFeature cfg i);
          respLabel = authFetch store (urlLabel cfg i);
          reqs' = reqs @ [urlFeature cfg i, urlLabel cfg i]
      in if responseCode respLabel = 200
         then downloadLoop_gs fuel store cfg (i + 100) (csv @ contentText respLabel) reqs'
         else if responseCode respFeature = 200
         then downloadLoop_gs fuel store cfg (i + 100) (csv @ contentText respFeature) reqs'
         else (Some csv, reqs'))"

text \<open>
  The loop of \<^verbatim>\<open>do_get.js\<close> fetches the labels file only, with
  \<^verbatim>\<open>UrlFetchApp.fetch(url, {'muteHttpExceptions': true})\<close>.
\<close>

fun downloadLoop_js ::
  "nat \<Rightarrow> storage \<Rightarrow> config \<Rightarrow> nat \<Rightarrow> string \<Rightarrow> string list \<Rightarrow> string option \<times> string list"
where
  "downloadLoop_js 0 store cfg i csv reqs = (None, reqs)"
| "downloadLoop_js (Suc fuel) store cfg i csv reqs =
     (let resp = store (urlLabel cfg i);
          reqs' = reqs @ [urlLabel cfg i]
      in if responseCode resp = 200
         then downloadLoop_js fuel store cfg (i + 100) (csv @ contentText resp) reqs'
         else (Some csv, reqs'))"

text \<open>
  What the statements about the loop speak of: a batch is present when one of its two
  files answers 200, and its body is the labels file's text when that answers 200, the
  features file's otherwise.
\<close>

definition batchPresent :: "storage \<Rightarrow> config \<Rightarrow> nat \<Rightarrow> bool" where
  "batchPresent store cfg i \<longleftrightarrow>
     responseCode (store (urlLabel cfg i)) = 200 \<or> responseCode (store (urlFeature cfg i)) = 200"

definition batchBody :: "storage \<Rightarrow> config \<Rightarrow> nat \<Rightarrow> string" where
  "batchBody store cfg i =
     (if responseCode (store (urlLabel cfg i)) = 200 then contentText (store (urlLabel cfg i))
      else contentText (store (urlFeature cfg i)))"

definition batchRequests :: "config \<Rightarrow> nat \<Rightarrow> string list" where
  "batchRequests cfg i = [urlFeature cfg i, urlLabel cfg i]"

text \<open>The ten suffixes \<^verbatim>\<open>001\<close>, \<^verbatim>\<open>101\<close>, ..., \<^verbatim>\<open>901\<close>, and the two files of a suffix.\<close>

definition loopSuffixes :: "string list" where
  "loopSuffixes = [''001'', ''101'', ''201'', ''301'', ''401'', ''501'', ''601'', ''701'', ''801'', ''901'']"

definition featuresFile :: "config \<Rightarrow> string \<Rightarrow> string" where
  "featuresFile cfg suffix = bucketUrl cfg @ pdfId cfg @ ''-'' @ suffix @ ''-features.csv''"

definition labelsFile :: "config \<Rightarrow> string \<Rightarrow> string" where
  "labelsFile cfg suffix = bucketUrl cfg @ pdfId cfg @ ''-'' @ suffix @ ''-labels.csv''"

section \<open>Records, the paragraph dictionary and the platform\<close>

text \<open>
  \<^verbatim>\<open>features\<close> is a JavaScript object filled by assignments \<^verbatim>\<open>features[key] = value\<close>,
  \<^verbatim>\<open>paraDict\<close> an object from page keys to arrays of such objects. Both are association
  lists of the own properties, in the order in which JavaScript lists them (see
  \<open>setProp\<close> below).
\<close>

type_synonym features = "(string \<times> cell) list"

type_synonym paraDict = "(string \<times> features list) list"

text \<open>
  What the script takes from the JavaScript runtime and from the services of Apps Script,
  and which is no code of the repository:
  the conversion of a text to a number (\<open>None\<close> is \<^verbatim>\<open>NaN\<close>) and of a number to a text,
  the value a sheet stores when the text \<open>s\<close> is written to a cell with
  \<^verbatim>\<open>setValue\<close>/\<^verbatim>\<open>setValues\<close> (a sheet turns a numeral into a number),
  \<^verbatim>\<open>Utilities.parseCsv\<close>, \<^verbatim>\<open>JSON.stringify\<close>, and the order in which
  \<^verbatim>\<open>Array.prototype.sort\<close> leaves an array whose comparator is no consistent comparison
  function for its elements, which ECMAScript leaves to the engine.
\<close>

record platform =
  toNumber :: "string \<Rightarrow> rat option"
  numberText :: "rat \<Rightarrow> string"
  enterValue :: "string \<Rightarrow> cell"
  parseCsv :: "string \<Rightarrow> string list list"
  stringify :: "paraDict \<Rightarrow> string"
  arraySort :: "(features \<Rightarrow> features \<Rightarrow> int) \<Rightarrow> features list \<Rightarrow> features list"

subsection \<open>The sheet store\<close>

text \<open>
  A sheet has a name, a grid of cells and cell backgrounds. \<open>grid\<close> lists the rows from
  row 1 on, each from column 1 on; a cell that the lists do not reach is empty, and
  \<^verbatim>\<open>getValues\<close> reads an empty cell as the empty text. The grid has no outer bound.
  A spreadsheet is the list of its sheets.
\<close>

record sheet =
  sheetName :: string
  grid :: "cell list list"
  backgrounds :: "((nat \<times> nat) \<times> string) list"

type_synonym spreadsheet = "sheet list"

definition emptyCell :: cell where
  "emptyCell = Str []"

definition cellAt :: "cell list list \<Rightarrow> nat \<Rightarrow> nat \<Rightarrow> cell" where
  "cellAt g r c =
     (if 1 \<le> r \<and> r \<le> length g \<and> 1 \<le> c \<and> c \<le> length (g ! (r - 1))
      then g ! (r - 1) ! (c - 1) else emptyCell)"

definition usedWidth :: "cell list \<Rightarrow> nat" where
  "usedWidth row = length (dropWhile (\<lambda>c. c = emptyCell) (rev row))"

text \<open>\<^verbatim>\<open>getLastRow\<close>, \<^verbatim>\<open>getLastColumn\<close>: the last row and column that have content.\<close>

definition getLastRow :: "cell list list \<Rightarrow> nat" where
  "getLastRow g = length (dropWhile (\<lambda>row. usedWidth row = 0) (rev g))"

definition getLastColumn :: "cell list list \<Rightarrow> nat" where
  "getLastColumn g = foldr (\<lambda>row m. max (usedWidth row) m) g 0"

text \<open>
  \<^verbatim>\<open>getRange(row, column, numRows, numColumns).getValues()\<close>. The service throws when a
  coordinate or a dimension is below 1.
\<close>

definition getValues :: "cell list list \<Rightarrow> nat \<Rightarrow> nat \<Rightarrow> nat \<Rightarrow> nat \<Rightarrow> error + cell list list" where
  "getValues g r c nr nc =
     (if r < 1 \<or> c < 1 \<or> nr < 1 \<or> nc < 1 then Inl ServiceException
      else Inr (map (\<lambda>i. map (\<lambda>j. cellAt g i j) [c..<c + nc]) [r..<r + nr]))"

text \<open>
  A sheet object is a handle: the position of the sheet in the spreadsheet.
  \<^verbatim>\<open>getSheetByName\<close> finds the first sheet of the name, or \<^verbatim>\<open>null\<close>.
\<close>

fun sheetIndex :: "spreadsheet \<Rightarrow> string \<Rightarrow> nat option" where
  "sheetIndex [] name = None"
| "sheetIndex (s # ss) name =
     (if sheetName s = name then Some 0 else map_option Suc (sheetIndex ss name))"

definition getSheetByName :: "spreadsheet \<Rightarrow> string \<Rightarrow> sheet option" where
  "getSheetByName book name = map_option (\<lambda>i. book ! i) (sheetIndex book name)"

text \<open>A method that writes to a sheet changes the sheet at the handle.\<close>

definition changeSheet :: "nat \<Rightarrow> (sheet \<Rightarrow> sheet) \<Rightarrow> spreadsheet \<Rightarrow> spreadsheet" where
  "changeSheet i f book = book[i := f (book ! i)]"

definition getSheet :: "config \<Rightarrow> spreadsheet \<Rightarrow> sheet option" where
  "getSheet cfg book = getSheetByName book (pdfId cfg)"

text \<open>
  \<^verbatim>\<open>getHeaderList\<close>: \<^verbatim>\<open>sheet.getRange(1, 1, 1, sheet.getLastColumn()).getValues()[0]\<close>.
  With no sheet of that name \<^verbatim>\<open>sheet\<close> is \<^verbatim>\<open>null\<close> and the method call is a TypeError.
\<close>

definition getHeaderList :: "config \<Rightarrow> spreadsheet \<Rightarrow> error + cell list" where
  "getHeaderList cfg book =
     (case getSheet cfg book of
        None \<Rightarrow> Inl TypeError
      | Some sheet \<Rightarrow>
          (case getValues (grid sheet) 1 1 1 (getLastColumn (grid sheet)) of
             Inl e \<Rightarrow> Inl e
           | Inr values \<Rightarrow> Inr (values ! 0)))"

subsection \<open>\<^verbatim>\<open>features.id.match(/(.*)-([0-9]+)-([0-9]+)/)\<close>\<close>

definition isDigit :: "char \<Rightarrow> bool" where
  "isDigit c \<longleftrightarrow> 48 \<le> (of_char c :: nat) \<and> (of_char c :: nat) \<le> 57"

text \<open>\<^verbatim>\<open>.\<close> matches every character but a line terminator.\<close>

definition isLineTerminator :: "char \<Rightarrow> bool" where
  "isLineTerminator c \<longleftrightarrow> (of_char c :: nat) = 10 \<or> (of_char c :: nat) = 13"

text \<open>
  \<^verbatim>\<open>-([0-9]+)-([0-9]+)\<close> at the front of a text. Each \<^verbatim>\<open>[0-9]+\<close> is greedy; the first
  one must take the whole run of digits, since a shorter run is followed by a digit and
  not by \<^verbatim>\<open>-\<close>.
\<close>

definition matchTail :: "string \<Rightarrow> (string \<times> string) option" where
  "matchTail t =
     (case t of
        [] \<Rightarrow> None
      | c # r \<Rightarrow>
          if c \<noteq> CHR ''-'' then None
          else let page = takeWhile isDigit r; r' = dropWhile isDigit r
               in if page = [] then None
                  else (case r' of
                          [] \<Rightarrow> None
                        | c' # r'' \<Rightarrow>
                            if c' \<noteq> CHR ''-'' then None
                            else let para = takeWhile isDigit r''
                                 in if para = [] then None else Some (page, para)))"

text \<open>
  \<^verbatim>\<open>(.*)\<close> is greedy and gives characters back one at a time: the group is tried with
  \<open>n\<close> characters, then \<open>n - 1\<close>, down to none.
\<close>

fun matchBack :: "string \<Rightarrow> nat \<Rightarrow> (string \<times> string \<times> string) option" where
  "matchBack s 0 =
     (case matchTail s of None \<Rightarrow> None | Some (page, para) \<Rightarrow> Some ([], page, para))"
| "matchBack s (Suc n) =
     (case matchTail (drop (Suc n) s) of
        Some (page, para) \<Rightarrow> Some (take (Suc n) s, page, para)
      | None \<Rightarrow> matchBack s n)"

definition matchHere :: "string \<Rightarrow> (string \<times> string \<times> string) option" where
  "matchHere s = matchBack s (length (takeWhile (\<lambda>c. \<not> isLineTerminator c) s))"

text \<open>
  The pattern has no anchor: the match is tried at the first character, then at the
  second, and so on. The result holds the groups \<^verbatim>\<open>m[1]\<close>, \<^verbatim>\<open>m[2]\<close>, \<^verbatim>\<open>m[3]\<close>;
  \<open>None\<close> is \<^verbatim>\<open>null\<close>.
\<close>

fun idMatch :: "string \<Rightarrow> (string \<times> string \<times> string) option" where
  "idMatch [] = matchHere []"
| "idMatch (c # cs) = (case matchHere (c # cs) of Some m \<Rightarrow> Some m | None \<Rightarrow> idMatch cs)"

subsection \<open>The comparison of \<^verbatim>\<open>area\<close> values and \<^verbatim>\<open>Array.prototype.sort\<close>\<close>

text \<open>
  A property value is \<open>None\<close> when the object has no such property (\<^verbatim>\<open>undefined\<close>).
  \<^verbatim>\<open><\<close> compares two texts by their code units and everything else as numbers, with
  \<^verbatim>\<open>undefined\<close> and a text that is no numeral being \<^verbatim>\<open>NaN\<close>; \<^verbatim>\<open>==\<close> likewise, except
  that \<^verbatim>\<open>undefined\<close> equals \<^verbatim>\<open>undefined\<close> and nothing else here.
\<close>

fun strLess :: "string \<Rightarrow> string \<Rightarrow> bool" where
  "strLess [] [] = False"
| "strLess [] (y # ys) = True"
| "strLess (x # xs) [] = False"
| "strLess (x # xs) (y # ys) =
     (if (of_char x :: nat) < of_char y then True
      else if (of_char y :: nat) < of_char x then False
      else strLess xs ys)"

fun jsToNumber :: "platform \<Rightarrow> cell option \<Rightarrow> rat option" where
  "jsToNumber pf None = None"
| "jsToNumber pf (Some (Num q)) = Some q"
| "jsToNumber pf (Some (Str s)) = toNumber pf s"

fun jsLess :: "platform \<Rightarrow> cell option \<Rightarrow> cell option \<Rightarrow> bool" where
  "jsLess pf (Some (Str a)) (Some (Str b)) = strLess a b"
| "jsLess pf x y =
     (case (jsToNumber pf x, jsToNumber pf y) of (Some p, Some q) \<Rightarrow> p < q | _ \<Rightarrow> False)"

fun jsLooseEq :: "platform \<Rightarrow> cell option \<Rightarrow> cell option \<Rightarrow> bool" where
  "jsLooseEq pf None None = True"
| "jsLooseEq pf None (Some v) = False"
| "jsLooseEq pf (Some u) None = False"
| "jsLooseEq pf (Some (Str a)) (Some (Str b)) = (a = b)"
| "jsLooseEq pf (Some u) (Some v) =
     (case (jsToNumber pf (Some u), jsToNumber pf (Some v)) of
        (Some p, Some q) \<Rightarrow> p = q
      | _ \<Rightarrow> False)"

text \<open>
  \<^verbatim>\<open>function (a, b) { return a.area < b.area ? 1 : (a.area == b.area ? 0 : -1); }\<close>
\<close>

definition areaCompare :: "platform \<Rightarrow> features \<Rightarrow> features \<Rightarrow> int" where
  "areaCompare pf a b =
     (if jsLess pf (map_of a ''area'') (map_of b ''area'') then 1
      else if jsLooseEq pf (map_of a ''area'') (map_of b ''area'') then 0
      else - 1)"

text \<open>
  \<^verbatim>\<open>sort(compare)\<close> is a stable sort (ECMAScript 2019). With a comparator that is a
  consistent comparison function for the elements of the array, every stable sort leaves
  the same array: an element goes before the first one that the comparator puts after
  it, and so behind the elements it ties with.
\<close>

fun sortInsert :: "('a \<Rightarrow> 'a \<Rightarrow> int) \<Rightarrow> 'a \<Rightarrow> 'a list \<Rightarrow> 'a list" where
  "sortInsert compare x [] = [x]"
| "sortInsert compare x (y # ys) =
     (if compare x y < 0 then x # y # ys else y # sortInsert compare x ys)"

definition stableSort :: "('a \<Rightarrow> 'a \<Rightarrow> int) \<Rightarrow> 'a list \<Rightarrow> 'a list" where
  "stableSort compare xs = foldl (\<lambda>sorted x. sortInsert compare x sorted) [] xs"

text \<open>
  A consistent comparison function for the elements of an array (ECMAScript,
  \<^verbatim>\<open>Array.prototype.sort\<close>): an element ties with itself, ties are symmetric and
  transitive, and so are \<open>before\<close> (a result below 0) and \<open>after\<close> (a result above 0).
  The comparator of the script has no effect and gives the same number for the same two
  records, which are the two other conditions.
\<close>

definition consistentOn :: "('a \<Rightarrow> 'a \<Rightarrow> int) \<Rightarrow> 'a list \<Rightarrow> bool" where
  "consistentOn compare xs \<longleftrightarrow>
     list_all (\<lambda>a. compare a a = 0 \<and>
       list_all (\<lambda>b. (compare a b = 0 \<longrightarrow> compare b a = 0) \<and>
         list_all (\<lambda>c.
           (compare a b = 0 \<and> compare b c = 0 \<longrightarrow> compare a c = 0) \<and>
           (compare a b < 0 \<and> compare b c < 0 \<longrightarrow> compare a c < 0) \<and>
           (0 < compare a b \<and> 0 < compare b c \<longrightarrow> 0 < compare a c)) xs) xs) xs"

text \<open>
  With any other comparator the array holds the elements it held, in an order that is
  implementation-defined: the order is the one the platform gives. An answer of the
  platform that is no rearrangement of the array is not taken.
\<close>

fun isRearrangement :: "'a list \<Rightarrow> 'a list \<Rightarrow> bool" where
  "isRearrangement [] ys = (ys = [])"
| "isRearrangement (x # xs) ys = (x \<in> set ys \<and> isRearrangement xs (remove1 x ys))"

definition jsSort ::
  "platform \<Rightarrow> (features \<Rightarrow> features \<Rightarrow> int) \<Rightarrow> features list \<Rightarrow> features list"
where
  "jsSort pf compare xs =
     (if consistentOn compare xs then stableSort compare xs
      else if isRearrangement (arraySort pf compare xs) xs then arraySort pf compare xs
      else stableSort compare xs)"

subsection \<open>The own properties of an object\<close>

text \<open>
  An object lists its own properties, to \<^verbatim>\<open>JSON.stringify\<close> as to every enumeration, with
  the keys that are array indices first, in ascending numeric order, and then the other
  keys in the order of their first assignment. An array index is the decimal text,
  without a leading zero, of a number below \<open>2\<^sup>3\<^sup>2 - 1\<close>, which is 4294967295. Of two
  such texts the shorter one writes the smaller number, and of two of one length the one
  that is less as a text.
\<close>

definition numeralLess :: "string \<Rightarrow> string \<Rightarrow> bool" where
  "numeralLess a b \<longleftrightarrow> length a < length b \<or> (length a = length b \<and> strLess a b)"

definition isArrayIndex :: "string \<Rightarrow> bool" where
  "isArrayIndex key \<longleftrightarrow>
     key \<noteq> [] \<and> list_all isDigit key \<and> (key = ''0'' \<or> hd key \<noteq> CHR ''0'')
     \<and> numeralLess key ''4294967295''"

text \<open>Whether a new key is listed before a key that the object has.\<close>

definition listedBefore :: "string \<Rightarrow> string \<Rightarrow> bool" where
  "listedBefore key other \<longleftrightarrow>
     isArrayIndex key \<and> (if isArrayIndex other then numeralLess key other else True)"

fun insertProp :: "string \<Rightarrow> 'v \<Rightarrow> (string \<times> 'v) list \<Rightarrow> (string \<times> 'v) list" where
  "insertProp key v [] = [(key, v)]"
| "insertProp key v ((k, w) # rest) =
     (if listedBefore key k then (key, v) # (k, w) # rest else (k, w) # insertProp key v rest)"

text \<open>
  \<^verbatim>\<open>obj[key] = v\<close>: the value of a key that the object has is overwritten where it stands,
  a new key takes its place in the order.
\<close>

definition setProp :: "string \<Rightarrow> 'v \<Rightarrow> (string \<times> 'v) list \<Rightarrow> (string \<times> 'v) list" where
  "setProp key v obj =
     (case map_of obj key of
        None \<Rightarrow> insertProp key v obj
      | Some w \<Rightarrow> AList.update key v obj)"

subsection \<open>\<^verbatim>\<open>buildParaDictFromSheet\<close> and \<^verbatim>\<open>getParaDict\<close>\<close>

text \<open>
  The text of a cell. A property key is the text of the header cell; the text finder of
  \<^verbatim>\<open>updateLabel\<close> searches the texts of the cells.
\<close>

definition cellText :: "platform \<Rightarrow> cell \<Rightarrow> string" where
  "cellText pf c = (case c of Str s \<Rightarrow> s | Num q \<Rightarrow> numberText pf q)"

text \<open>
  \<^verbatim>\<open>for (var i in row) { features[headerList[i]] = row[i]; }\<close>; the header and the row are
  read with the same number of columns.
\<close>

definition rowFeatures :: "platform \<Rightarrow> cell list \<Rightarrow> cell list \<Rightarrow> features" where
  "rowFeatures pf headerList row =
     foldl (\<lambda>features (h, v). setProp (cellText pf h) v features) [] (zip headerList row)"

text \<open>The variables of the loop; the two counts are what the function logs at its end.\<close>

record build =
  paraDict :: paraDict
  pageCount :: nat
  paraCount :: nat

text \<open>
  The body of \<^verbatim>\<open>vals.forEach\<close>. \<^verbatim>\<open>features.id.match\<close> is a TypeError when the record has
  no \<^verbatim>\<open>id\<close> property (\<^verbatim>\<open>undefined\<close>) and when the cell holds a number, which has no
  method \<^verbatim>\<open>match\<close>. On \<^verbatim>\<open>null\<close> the body returns at once.
\<close>

definition processRow :: "platform \<Rightarrow> cell list \<Rightarrow> build \<Rightarrow> cell list \<Rightarrow> error + build" where
  "processRow pf headerList st row =
     (let features = rowFeatures pf headerList row
      in case map_of features ''id'' of
           None \<Rightarrow> Inl TypeError
         | Some (Num q) \<Rightarrow> Inl TypeError
         | Some (Str s) \<Rightarrow>
             (case idMatch s of
                None \<Rightarrow> Inr st
              | Some (pdfName, page, para) \<Rightarrow>
                  let found = map_of (paraDict st) page;
                      bucket = (case found of None \<Rightarrow> [] | Some b \<Rightarrow> b);
                      pages = (case found of None \<Rightarrow> pageCount st + 1 | Some b \<Rightarrow> pageCount st)
                  in Inr \<lparr>paraDict =
                            setProp page (jsSort pf (areaCompare pf) (bucket @ [features]))
                              (paraDict st),
                          pageCount = pages,
                          paraCount = paraCount st + 1\<rparr>))"

fun forEachRow :: "platform \<Rightarrow> cell list \<Rightarrow> build \<Rightarrow> cell list list \<Rightarrow> error + build" where
  "forEachRow pf headerList st [] = Inr st"
| "forEachRow pf headerList st (row # rows) =
     (case processRow pf headerList st row of
        Inl e \<Rightarrow> Inl e
      | Inr st' \<Rightarrow> forEachRow pf headerList st' rows)"

text \<open>
  \<^verbatim>\<open>vals\<close> is \<^verbatim>\<open>sheet.getRange(2, 1, sheet.getLastRow(), sheet.getLastColumn()).getValues()\<close>:
  \<^verbatim>\<open>getLastRow()\<close> rows from row 2 on, so the rows after the header and one empty row.
\<close>

definition buildParaDictFromSheet :: "platform \<Rightarrow> config \<Rightarrow> spreadsheet \<Rightarrow> error + build" where
  "buildParaDictFromSheet pf cfg book =
     (case getSheet cfg book of
        None \<Rightarrow> Inl TypeError
      | Some sheet \<Rightarrow>
          (case getHeaderList cfg book of
             Inl e \<Rightarrow> Inl e
           | Inr headerList \<Rightarrow>
               (case getValues (grid sheet) 2 1 (getLastRow (grid sheet)) (getLastColumn (grid sheet)) of
                  Inl e \<Rightarrow> Inl e
                | Inr vals \<Rightarrow>
                    forEachRow pf headerList \<lparr>paraDict = [], pageCount = 0, paraCount = 0\<rparr> vals)))"

text \<open>\<^verbatim>\<open>getParaDict\<close>: \<open>Inr None\<close> is the returned \<^verbatim>\<open>null\<close>.\<close>

definition getParaDict :: "platform \<Rightarrow> config \<Rightarrow> spreadsheet \<Rightarrow> error + string option" where
  "getParaDict pf cfg book =
     (case getSheet cfg book of
        None \<Rightarrow> Inr None
      | Some sheet \<Rightarrow>
          (case buildParaDictFromSheet pf cfg book of
             Inl e \<Rightarrow> Inl e
           | Inr st \<Rightarrow> Inr (Some (stringify pf (paraDict st)))))"

section \<open>\<^verbatim>\<open>updateLabel\<close>\<close>

text \<open>
  \<^verbatim>\<open>getSheet().createTextFinder(id).findNext()\<close>. A text finder of a sheet with its default
  options searches every cell of the sheet, row by row, ignores case, and matches a cell
  whose text contains the searched text (\<^verbatim>\<open>matchEntireCell\<close> and \<^verbatim>\<open>matchCase\<close> are off
  unless set). \<^verbatim>\<open>findNext\<close> returns the first such cell, or \<^verbatim>\<open>null\<close>.
\<close>

definition lowerChar :: "char \<Rightarrow> char" where
  "lowerChar c =
     (if 65 \<le> (of_char c :: nat) \<and> (of_char c :: nat) \<le> 90 then char_of (of_char c + 32 :: nat)
      else c)"

fun containsText :: "string \<Rightarrow> string \<Rightarrow> bool" where
  "containsText needle [] = (needle = [])"
| "containsText needle (h # hs) =
     (take (length needle) (h # hs) = needle \<or> containsText needle hs)"

definition cellMatches :: "platform \<Rightarrow> string \<Rightarrow> cell \<Rightarrow> bool" where
  "cellMatches pf findText c =
     containsText (map lowerChar findText) (map lowerChar (cellText pf c))"

fun firstColumn :: "('a \<Rightarrow> bool) \<Rightarrow> 'a list \<Rightarrow> nat \<Rightarrow> nat option" where
  "firstColumn P [] c = None"
| "firstColumn P (x # xs) c = (if P x then Some c else firstColumn P xs (Suc c))"

fun firstHit :: "('a \<Rightarrow> bool) \<Rightarrow> 'a list list \<Rightarrow> nat \<Rightarrow> (nat \<times> nat) option" where
  "firstHit P [] r = None"
| "firstHit P (row # rows) r =
     (case firstColumn P row 1 of
        Some c \<Rightarrow> Some (r, c)
      | None \<Rightarrow> firstHit P rows (Suc r))"

definition findNext :: "platform \<Rightarrow> sheet \<Rightarrow> string \<Rightarrow> (nat \<times> nat) option" where
  "findNext pf sheet findText = firstHit (cellMatches pf findText) (grid sheet) 1"

text \<open>\<^verbatim>\<open>indexOf\<close> compares with \<^verbatim>\<open>===\<close> and returns \<open>-1\<close> when nothing is equal.\<close>

fun indexOf :: "'a list \<Rightarrow> 'a \<Rightarrow> int" where
  "indexOf [] x = - 1"
| "indexOf (y # ys) x =
     (if y = x then 0 else (let k = indexOf ys x in if k < 0 then - 1 else k + 1))"

text \<open>Writing one cell: the lists grow by empty rows and empty cells up to the cell.\<close>

definition setCell :: "cell list list \<Rightarrow> nat \<Rightarrow> nat \<Rightarrow> cell \<Rightarrow> cell list list" where
  "setCell g r c v =
     (let g1 = g @ replicate (r - length g) [];
          row = g1 ! (r - 1);
          row1 = row @ replicate (c - length row) emptyCell
      in g1[r - 1 := row1[c - 1 := v]])"

definition setValue :: "platform \<Rightarrow> nat \<Rightarrow> nat \<Rightarrow> string \<Rightarrow> sheet \<Rightarrow> sheet" where
  "setValue pf r c text sheet = sheet\<lparr>grid := setCell (grid sheet) r c (enterValue pf text)\<rparr>"

definition setBackground :: "nat \<Rightarrow> nat \<Rightarrow> string \<Rightarrow> sheet \<Rightarrow> sheet" where
  "setBackground r c colour sheet =
     sheet\<lparr>backgrounds := AList.update (r, c) colour (backgrounds sheet)\<rparr>"

text \<open>
  A function that writes to the spreadsheet returns the new spreadsheet, or a fault
  together with the spreadsheet as the fault left it: what was written before an exception
  stays written.

  In \<^verbatim>\<open>updateLabel\<close>, \<^verbatim>\<open>idRange.getRow()\<close> is a TypeError when nothing was found, and
  \<^verbatim>\<open>getRange(idRow, 0)\<close> throws when the header has no \<^verbatim>\<open>label\<close>.
\<close>

definition updateLabel ::
  "platform \<Rightarrow> config \<Rightarrow> string \<Rightarrow> string \<Rightarrow> spreadsheet \<Rightarrow> (error \<times> spreadsheet) + spreadsheet"
where
  "updateLabel pf cfg ident label book =
     (case sheetIndex book (pdfId cfg) of
        None \<Rightarrow> Inl (TypeError, book)
      | Some i \<Rightarrow>
          (case findNext pf (book ! i) ident of
             None \<Rightarrow> Inl (TypeError, book)
           | Some (idRow, idColumn) \<Rightarrow>
               (case getHeaderList cfg book of
                  Inl e \<Rightarrow> Inl (e, book)
                | Inr headerList \<Rightarrow>
                    let labelColumn = indexOf headerList (Str ''label'') + 1
                    in if labelColumn < 1 then Inl (ServiceException, book)
                       else Inr (changeSheet i
                                   (\<lambda>s. setBackground idRow (nat labelColumn) ''wheat''
                                          (setValue pf idRow (nat labelColumn) label s))
                                   book))))"

section \<open>\<^verbatim>\<open>downloadLabels\<close>\<close>

subsection \<open>Adding a \<^verbatim>\<open>label\<close> column (\<^verbatim>\<open>do_get.gs\<close> only)\<close>

text \<open>
  \<^verbatim>\<open>x.push((x[1].length>100)?"body":"other")\<close>: \<^verbatim>\<open>x[1]\<close> is \<^verbatim>\<open>undefined\<close> in a row of
  fewer than two cells, and reading its \<^verbatim>\<open>length\<close> is a TypeError.
\<close>

definition pushDefault :: "string list \<Rightarrow> error + string list" where
  "pushDefault x =
     (if length x < 2 then Inl TypeError
      else Inr (x @ [if 100 < length (x ! 1) then ''body'' else ''other'']))"

fun mapRows :: "('a \<Rightarrow> error + 'b) \<Rightarrow> 'a list \<Rightarrow> error + 'b list" where
  "mapRows f [] = Inr []"
| "mapRows f (x # xs) =
     (case f x of
        Inl e \<Rightarrow> Inl e
      | Inr y \<Rightarrow> (case mapRows f xs of Inl e \<Rightarrow> Inl e | Inr ys \<Rightarrow> Inr (y # ys)))"

text \<open>
  \<^verbatim>\<open>labelData[0]\<close> is \<^verbatim>\<open>undefined\<close> when there is no row, and \<^verbatim>\<open>.includes\<close> on it a
  TypeError. After the \<^verbatim>\<open>map\<close>, the last cell of the first row is overwritten with
  \<^verbatim>\<open>"label"\<close>.
\<close>

definition reconcileLabels :: "string list list \<Rightarrow> error + string list list" where
  "reconcileLabels labelData =
     (case labelData of
        [] \<Rightarrow> Inl TypeError
      | header # rest \<Rightarrow>
          if ''label'' \<in> set header then Inr labelData
          else (case mapRows pushDefault labelData of
                  Inl e \<Rightarrow> Inl e
                | Inr rows \<Rightarrow> Inr (rows[0 := (rows ! 0)[length (rows ! 0) - 1 := ''label'']])))"

subsection \<open>Renaming the old sheet and filling a new one\<close>

text \<open>
  A spreadsheet has no two sheets of one name: \<^verbatim>\<open>setName\<close> throws when another sheet
  has the name already.
\<close>

definition setName :: "nat \<Rightarrow> string \<Rightarrow> spreadsheet \<Rightarrow> error + spreadsheet" where
  "setName i newName book =
     (if newName \<in> set (map sheetName (take i book @ drop (Suc i) book)) then Inl ServiceException
      else Inr (changeSheet i (\<lambda>s. s\<lparr>sheetName := newName\<rparr>) book))"

text \<open>
  \<^verbatim>\<open>insertSheet()\<close> adds an empty sheet under a name that no sheet has, \<^verbatim>\<open>Sheet\<close> and the
  first number that is free; its handle is the last position.
\<close>

definition freshName :: "spreadsheet \<Rightarrow> string" where
  "freshName book =
     (case find (\<lambda>n. ''Sheet'' @ natToString n \<notin> set (map sheetName book)) [1..<length book + 2] of
        None \<Rightarrow> ''Sheet''
      | Some n \<Rightarrow> ''Sheet'' @ natToString n)"

definition insertSheet :: "spreadsheet \<Rightarrow> spreadsheet" where
  "insertSheet book = book @ [\<lparr>sheetName = freshName book, grid = [], backgrounds = []\<rparr>]"

text \<open>\<^verbatim>\<open>insertRows(1, n)\<close> puts \<open>n\<close> empty rows before row 1.\<close>

definition insertRows :: "nat \<Rightarrow> sheet \<Rightarrow> sheet" where
  "insertRows n sheet = sheet\<lparr>grid := replicate n [] @ grid sheet\<rparr>"

text \<open>Writing a block of rows at row 1, column 1, over what the grid holds there.\<close>

fun overlay :: "cell list list \<Rightarrow> cell list list \<Rightarrow> cell list list" where
  "overlay [] g = g"
| "overlay (d # ds) [] = d # overlay ds []"
| "overlay (d # ds) (row # rows) = (d @ drop (length d) row) # overlay ds rows"

text \<open>
  The lines from \<^verbatim>\<open>var oldSheet = getSheet();\<close> to the end of \<^verbatim>\<open>downloadLabels\<close>.
  \<^verbatim>\<open>now\<close> is \<^verbatim>\<open>(new Date()).toLocaleTimeString()\<close>. \<^verbatim>\<open>labelData[0].length\<close> is a TypeError
  when there is no row (whatever \<^verbatim>\<open>insertRows(1, 0)\<close> did before it); \<^verbatim>\<open>getRange\<close> throws
  for a width of 0, and \<^verbatim>\<open>setValues\<close> when a row has not the width of the range.
\<close>

definition syncSheet ::
  "platform \<Rightarrow> config \<Rightarrow> string \<Rightarrow> string list list \<Rightarrow> spreadsheet \<Rightarrow> (error \<times> spreadsheet) + spreadsheet"
where
  "syncSheet pf cfg now labelData book =
     (case (case sheetIndex book (pdfId cfg) of
              None \<Rightarrow> Inr book
            | Some oldSheet \<Rightarrow>
                setName oldSheet (sheetName (book ! oldSheet) @ ''.old.'' @ now) book) of
        Inl e \<Rightarrow> Inl (e, book)
      | Inr book1 \<Rightarrow>
          let book2 = insertSheet book1;
              sheet = length book1
          in (case setName sheet (pdfId cfg) book2 of
                Inl e \<Rightarrow> Inl (e, book2)
              | Inr book3 \<Rightarrow>
                  let book4 = changeSheet sheet (insertRows (length labelData)) book3
                  in (case labelData of
                        [] \<Rightarrow> Inl (TypeError, book4)
                      | header # rest \<Rightarrow>
                          if length header < 1 then Inl (ServiceException, book4)
                          else if list_ex (\<lambda>row. length row \<noteq> length header) labelData
                          then Inl (ServiceException, book4)
                          else Inr (changeSheet sheet
                                      (\<lambda>s. s\<lparr>grid := overlay (map (map (enterValue pf)) labelData) (grid s)\<rparr>)
                                      book4))))"

text \<open>
  \<^verbatim>\<open>downloadLabels\<close> of \<^verbatim>\<open>do_get.gs\<close>: the loop, \<^verbatim>\<open>Utilities.parseCsv\<close>, the \<^verbatim>\<open>label\<close>
  column, the sheets. \<open>None\<close>: the loop did not end within the fuel.
\<close>

definition downloadLabels_gs ::
  "nat \<Rightarrow> platform \<Rightarrow> storage \<Rightarrow> config \<Rightarrow> string \<Rightarrow> spreadsheet
     \<Rightarrow> ((error \<times> spreadsheet) + spreadsheet) option"
where
  "downloadLabels_gs fuel pf store cfg now book =
     (case fst (downloadLoop_gs fuel store cfg 1 [] []) of
        None \<Rightarrow> None
      | Some csv \<Rightarrow>
          Some (case reconcileLabels (parseCsv pf csv) of
                  Inl e \<Rightarrow> Inl (e, book)
                | Inr labelData \<Rightarrow> syncSheet pf cfg now labelData book))"

text \<open>\<^verbatim>\<open>downloadLabels\<close> of \<^verbatim>\<open>do_get.js\<close> has no step for the \<^verbatim>\<open>label\<close> column.\<close>

definition downloadLabels_js ::
  "nat \<Rightarrow> platform \<Rightarrow> storage \<Rightarrow> config \<Rightarrow> string \<Rightarrow> spreadsheet
     \<Rightarrow> ((error \<times> spreadsheet) + spreadsheet) option"
where
  "downloadLabels_js fuel pf store cfg now book =
     (case fst (downloadLoop_js fuel store cfg 1 [] []) of
        None \<Rightarrow> None
      | Some csv \<Rightarrow> Some (syncSheet pf cfg now (parseCsv pf csv) book))"

section \<open>A platform, a store and sheets for the worked examples\<close>

text \<open>
  The examples run on a small platform: a text of digits is the number it writes, and is
  stored by a sheet as that number; a CSV text is cut at line feeds and commas; the
  dictionary is printed as its page keys with the number of records of each.

  Its engine sorts every array the way V8 sorts an array of fewer than 64 elements: the
  run at the front of the array is taken, and reversed when it descends; each further
  element is put in at the place that a binary search finds for it.
\<close>

fun countRun :: "('a \<Rightarrow> 'a \<Rightarrow> int) \<Rightarrow> bool \<Rightarrow> 'a \<Rightarrow> 'a list \<Rightarrow> nat" where
  "countRun compare descending previous [] = 0"
| "countRun compare descending previous (x # xs) =
     (if descending = (compare x previous < 0)
      then Suc (countRun compare descending x xs) else 0)"

fun makeRun :: "('a \<Rightarrow> 'a \<Rightarrow> int) \<Rightarrow> 'a list \<Rightarrow> 'a list \<times> 'a list" where
  "makeRun compare (low # next # rest) =
     (let descending = (compare next low < 0);
          runLength = 2 + countRun compare descending next rest;
          run = take runLength (low # next # rest)
      in (if descending then rev run else run, drop runLength (low # next # rest)))"
| "makeRun compare xs = (xs, [])"

function binarySearch :: "('a \<Rightarrow> 'a \<Rightarrow> int) \<Rightarrow> 'a \<Rightarrow> 'a list \<Rightarrow> nat \<Rightarrow> nat \<Rightarrow> nat" where
  "binarySearch compare pivot run left right =
     (if left < right
      then (if compare pivot (run ! (left + (right - left) div 2)) < 0
            then binarySearch compare pivot run left (left + (right - left) div 2)
            else binarySearch compare pivot run (left + (right - left) div 2 + 1) right)
      else left)"
  by pat_completeness auto
termination
  by (relation "measure (\<lambda>(compare, pivot, run, left, right). right - left)") auto

declare binarySearch.simps [simp del]

definition binaryInsert :: "('a \<Rightarrow> 'a \<Rightarrow> int) \<Rightarrow> 'a list \<Rightarrow> 'a \<Rightarrow> 'a list" where
  "binaryInsert compare run pivot =
     (let left = binarySearch compare pivot run 0 (length run)
      in take left run @ pivot # drop left run)"

definition engineSort :: "('a \<Rightarrow> 'a \<Rightarrow> int) \<Rightarrow> 'a list \<Rightarrow> 'a list" where
  "engineSort compare xs =
     (case makeRun compare xs of (run, rest) \<Rightarrow> foldl (binaryInsert compare) run rest)"

definition digitsToNat :: "string \<Rightarrow> nat" where
  "digitsToNat s = foldl (\<lambda>n c. 10 * n + (of_char c - 48)) 0 s"

definition isNumeral :: "string \<Rightarrow> bool" where
  "isNumeral s \<longleftrightarrow> s \<noteq> [] \<and> list_all isDigit s"

fun splitOn :: "char \<Rightarrow> string \<Rightarrow> string list" where
  "splitOn sep [] = [[]]"
| "splitOn sep (c # cs) =
     (if c = sep then [] # splitOn sep cs
      else (case splitOn sep cs of [] \<Rightarrow> [[c]] | w # ws \<Rightarrow> (c # w) # ws))"

definition examplePlatform :: platform where
  "examplePlatform =
     \<lparr>toNumber = (\<lambda>s. if isNumeral s then Some (of_nat (digitsToNat s)) else None),
      numberText = (\<lambda>q. natToString (nat \<lfloor>q\<rfloor>)),
      enterValue = (\<lambda>s. if isNumeral s then Num (of_nat (digitsToNat s)) else Str s),
      parseCsv = (\<lambda>s. map (splitOn CHR '','') (filter (\<lambda>l. l \<noteq> []) (splitOn (CHR 0x0A) s))),
      stringify = (\<lambda>d. concat (map (\<lambda>(page, records). page @ '':'' @ natToString (length records) @ '';'') d)),
      arraySort = engineSort\<rparr>"

definition exampleConfig :: config where
  "exampleConfig = \<lparr>pdfId = ''abcd'', bucketUrl = ''https://storage.googleapis.com/bucket/''\<rparr>"

definition notFound :: response where
  "notFound = \<lparr>responseCode = 404, contentText = ''NoSuchKey''\<rparr>"

text \<open>A bucket with no file at all.\<close>

definition emptyStore :: storage where
  "emptyStore url = notFound"

text \<open>
  A bucket with two batches: \<^verbatim>\<open>abcd-001-features.csv\<close> and \<^verbatim>\<open>abcd-101-labels.csv\<close>;
  nothing at 201.
\<close>

definition batch1 :: string where
  "batch1 = ''id,text,area'' @ [CHR 0x0A] @ ''doc-3-1,hello,50'' @ [CHR 0x0A]
            @ ''doc-3-2,world,200'' @ [CHR 0x0A]"

definition batch101 :: string where
  "batch101 = ''doc-4-1,again,10'' @ [CHR 0x0A]"

definition exampleStore :: storage where
  "exampleStore url =
     (if url = ''https://storage.googleapis.com/bucket/abcd-001-features.csv''
      then \<lparr>responseCode = 200, contentText = batch1\<rparr>
      else if url = ''https://storage.googleapis.com/bucket/abcd-101-labels.csv''
      then \<lparr>responseCode = 200, contentText = batch101\<rparr>
      else notFound)"

text \<open>A bucket in which every labels file is there, whatever its number.\<close>

definition fullStore :: storage where
  "fullStore url = \<lparr>responseCode = 200, contentText = ''x''\<rparr>"

text \<open>
  The sheet of the records \<^verbatim>\<open>doc-3-1\<close> (area 50), \<^verbatim>\<open>doc-3-2\<close> (area 200), \<^verbatim>\<open>doc-4-1\<close>
  (area 10) and of one record with the id \<^verbatim>\<open>malformed_id\<close>.
\<close>

definition exampleSheet :: sheet where
  "exampleSheet =
     \<lparr>sheetName = ''abcd'',
      grid = [[Str ''id'', Str ''text'', Str ''area'', Str ''label''],
              [Str ''doc-3-1'', Str ''hello'', Num 50, Str ''other''],
              [Str ''malformed_id'', Str ''what'', Num 70, Str ''other''],
              [Str ''doc-3-2'', Str ''world'', Num 200, Str ''other''],
              [Str ''doc-4-1'', Str ''again'', Num 10, Str ''other'']],
      backgrounds = []\<rparr>"

text \<open>
  The records \<^verbatim>\<open>doc-3-1\<close> (area 50), \<^verbatim>\<open>doc-3-2\<close> (area 200) and \<^verbatim>\<open>doc-3-3\<close> (area 120) in
  a sheet whose \<^verbatim>\<open>area\<close> cells hold the numerals as texts, as the cells of a column in
  plain text format do.
\<close>

definition textAreaSheet :: sheet where
  "textAreaSheet =
     \<lparr>sheetName = ''abcd'',
      grid = [[Str ''id'', Str ''text'', Str ''area'', Str ''label''],
              [Str ''doc-3-1'', Str ''hello'', Str ''50'', Str ''other''],
              [Str ''doc-3-2'', Str ''world'', Str ''200'', Str ''other''],
              [Str ''doc-3-3'', Str ''again'', Str ''120'', Str ''other'']],
      backgrounds = []\<rparr>"

text \<open>A sheet in which a record of page 10 stands before a record of page 9.\<close>

definition twoPageSheet :: sheet where
  "twoPageSheet =
     \<lparr>sheetName = ''abcd'',
      grid = [[Str ''id'', Str ''area''],
              [Str ''doc-10-1'', Num 5],
              [Str ''doc-9-1'', Num 7],
              [Str ''doc-09-1'', Num 3]],
      backgrounds = []\<rparr>"

text \<open>A sheet without a column \<^verbatim>\<open>id\<close>, and one whose ids are numbers.\<close>

definition noIdSheet :: sheet where
  "noIdSheet =
     \<lparr>sheetName = ''abcd'',
      grid = [[Str ''text'', Str ''area''], [Str ''hello'', Num 5]],
      backgrounds = []\<rparr>"

definition numericIdSheet :: sheet where
  "numericIdSheet =
     \<lparr>sheetName = ''abcd'',
      grid = [[Str ''id'', Str ''area''], [Num 7, Num 5]],
      backgrounds = []\<rparr>"

text \<open>A sheet in which the row of \<^verbatim>\<open>doc-1-10\<close> stands before the row of \<^verbatim>\<open>doc-1-1\<close>.\<close>

definition reorderedSheet :: sheet where
  "reorderedSheet =
     \<lparr>sheetName = ''abcd'',
      grid = [[Str ''id'', Str ''text'', Str ''label''],
              [Str ''doc-1-10'', Str ''ten'', Str ''other''],
              [Str ''doc-1-1'', Str ''one'', Str ''other'']],
      backgrounds = []\<rparr>"

text \<open>A sheet in which the text of the record \<^verbatim>\<open>doc-1-1\<close> is the id of the next record.\<close>

definition quotingSheet :: sheet where
  "quotingSheet =
     \<lparr>sheetName = ''abcd'',
      grid = [[Str ''id'', Str ''text'', Str ''label''],
              [Str ''doc-1-1'', Str ''doc-1-2'', Str ''other''],
              [Str ''doc-1-2'', Str ''two'', Str ''other'']],
      backgrounds = []\<rparr>"

text \<open>An archived sheet that holds the name the next archive would take at 10:00:00.\<close>

definition archivedSheet :: sheet where
  "archivedSheet =
     \<lparr>sheetName = ''abcd.old.10:00:00'', grid = [[Str ''id'']], backgrounds = []\<rparr>"

declare natToString.simps [simp del]

section \<open>What the statements about the dictionary speak of\<close>

text \<open>
  The records of a sheet in the order of their rows: every row that
  \<^verbatim>\<open>buildParaDictFromSheet\<close> reads, as the object the loop builds from it.
\<close>

definition dataRecords :: "platform \<Rightarrow> sheet \<Rightarrow> features list" where
  "dataRecords pf sheet =
     (case getValues (grid sheet) 1 1 1 (getLastColumn (grid sheet)) of
        Inl e \<Rightarrow> []
      | Inr values \<Rightarrow>
          (case getValues (grid sheet) 2 1 (getLastRow (grid sheet)) (getLastColumn (grid sheet)) of
             Inl e \<Rightarrow> []
           | Inr vals \<Rightarrow> map (rowFeatures pf (values ! 0)) vals))"

text \<open>The page of a record: the second group of the match of its id, when it is a text that matches.\<close>

definition pageOf :: "features \<Rightarrow> string option" where
  "pageOf f =
     (case map_of f ''id'' of
        Some (Str s) \<Rightarrow> (case idMatch s of None \<Rightarrow> None | Some (pdfName, page, para) \<Rightarrow> Some page)
      | _ \<Rightarrow> None)"

definition pageRecords :: "string \<Rightarrow> features list \<Rightarrow> features list" where
  "pageRecords page records = filter (\<lambda>f. pageOf f = Some page) records"

definition hasTextId :: "features \<Rightarrow> bool" where
  "hasTextId f \<longleftrightarrow> (case map_of f ''id'' of Some (Str s) \<Rightarrow> True | _ \<Rightarrow> False)"

definition hasNumericArea :: "features \<Rightarrow> bool" where
  "hasNumericArea f \<longleftrightarrow> (case map_of f ''area'' of Some (Num q) \<Rightarrow> True | _ \<Rightarrow> False)"

definition areaOf :: "features \<Rightarrow> rat" where
  "areaOf f = (case map_of f ''area'' of Some (Num q) \<Rightarrow> q | _ \<Rightarrow> 0)"

text \<open>The number that the \<^verbatim>\<open>area\<close> cell of a record stands for, be it a number or a numeral.\<close>

definition areaNumber :: "platform \<Rightarrow> features \<Rightarrow> rat option" where
  "areaNumber pf f = jsToNumber pf (map_of f ''area'')"

text \<open>
  Sorted by \<^verbatim>\<open>area\<close> in descending order, ties in the order of encounter, in the words of
  the specification: \<^const>\<open>sort_key\<close> is the stable sort of the library, here on the
  negated area.
\<close>

definition sortedByAreaDescending :: "features list \<Rightarrow> features list" where
  "sortedByAreaDescending records = sort_key (\<lambda>f. - areaOf f) records"

text \<open>
  The same sort on the numbers that the \<^verbatim>\<open>area\<close> cells stand for, for records whose
  areas are numerals in text cells.
\<close>

definition sortedByAreaNumberDescending :: "platform \<Rightarrow> features list \<Rightarrow> features list" where
  "sortedByAreaNumberDescending pf records =
     sort_key (\<lambda>f. case areaNumber pf f of None \<Rightarrow> 0 | Some q \<Rightarrow> - q) records"

text \<open>The spreadsheet after a call that writes to it, whether the call returned or raised.\<close>

definition bookAfter :: "(error \<times> spreadsheet) + spreadsheet \<Rightarrow> spreadsheet" where
  "bookAfter outcome = (case outcome of Inl (e, book) \<Rightarrow> book | Inr book \<Rightarrow> book)"

section \<open>The download loop: lemmas\<close>

lemma digitChar_0: "digitChar 0 = CHR ''0''"
  by code_simp

lemma natToString_ge10: "10 \<le> n \<Longrightarrow> natToString n = natToString (n div 10) @ [digitChar (n mod 10)]"
  by (subst natToString.simps) simp

lemma natToString_lt10: "n < 10 \<Longrightarrow> natToString n = [digitChar n]"
  by (subst natToString.simps) simp

lemma sliceLast3_snoc3: "sliceLast3 (s @ [a, b, c]) = [a, b, c]"
  by (simp add: sliceLast3_def)

lemma batchSuffix_digits:
  "batchSuffix i = [digitChar (i div 100 mod 10), digitChar (i div 10 mod 10), digitChar (i mod 10)]"
proof -
  consider "i < 10" | "10 \<le> i" "i < 100" | "100 \<le> i" "i < 1000" | "1000 \<le> i" by linarith
  then show ?thesis
  proof cases
    case 1
    then show ?thesis
      by (simp add: batchSuffix_def sliceLast3_def natToString_lt10 digitChar_0)
  next
    case 2
    then have a: "i div 10 < 10" and b: "i div 100 = 0" and c: "i div 10 mod 10 = i div 10" by simp_all
    have "natToString i = [digitChar (i div 10), digitChar (i mod 10)]"
      using 2 a by (simp add: natToString_ge10 natToString_lt10)
    then show ?thesis
      by (simp add: batchSuffix_def sliceLast3_def b c digitChar_0)
  next
    case 3
    then have a: "10 \<le> i div 10" and b: "i div 100 < 10" by simp_all
    have c: "i div 10 div 10 = i div 100" by (simp add: div_mult2_eq)
    have "natToString (i div 10) = [digitChar (i div 100), digitChar (i div 10 mod 10)]"
      using a b c by (simp add: natToString_ge10 natToString_lt10)
    then have "natToString i = [digitChar (i div 100), digitChar (i div 10 mod 10), digitChar (i mod 10)]"
      using 3 by (simp add: natToString_ge10)
    then show ?thesis
      using b by (simp add: batchSuffix_def sliceLast3_def)
  next
    case 4
    then have a: "10 \<le> i div 10" and b: "10 \<le> i div 100" by simp_all
    have c: "i div 10 div 10 = i div 100" by (simp add: div_mult2_eq)
    have "natToString (i div 100) = natToString (i div 100 div 10) @ [digitChar (i div 100 mod 10)]"
      using b by (rule natToString_ge10)
    then have "natToString (i div 10) = natToString (i div 100 div 10) @ [digitChar (i div 100 mod 10), digitChar (i div 10 mod 10)]"
      using a c natToString_ge10[of "i div 10"] by simp
    then have "natToString i = natToString (i div 100 div 10) @ [digitChar (i div 100 mod 10), digitChar (i div 10 mod 10), digitChar (i mod 10)]"
      using 4 natToString_ge10[of i] by simp
    then have "''000'' @ natToString i = (''000'' @ natToString (i div 100 div 10)) @ [digitChar (i div 100 mod 10), digitChar (i div 10 mod 10), digitChar (i mod 10)]"
      by simp
    then show ?thesis
      unfolding batchSuffix_def by (simp only: sliceLast3_snoc3)
  qed
qed

lemma batchSuffix_period: "batchSuffix (i + 1000) = batchSuffix i"
proof -
  have a: "(i + 1000) div 100 = i div 100 + 10"
    using div_mult_self1[of 100 i 10] by simp
  have b: "(i + 1000) div 10 = i div 10 + 100"
    using div_mult_self1[of 10 i 100] by simp
  have c: "(i + 1000) mod 10 = i mod 10"
    using mod_mult_self1[of i 100 10] by simp
  have a': "(i div 100 + 10) mod 10 = i div 100 mod 10" by simp
  have b': "(i div 10 + 100) mod 10 = i div 10 mod 10"
    using mod_mult_self1[of "i div 10" 10 10] by simp
  show ?thesis by (simp only: batchSuffix_digits a b c a' b')
qed

lemma urls_period: "urlLabel cfg (i + 1000) = urlLabel cfg i" "urlFeature cfg (i + 1000) = urlFeature cfg i"
  by (simp_all add: urlLabel_def urlFeature_def batchId_def batchSuffix_period)

lemma batchSuffix_loop: "batchSuffix (1 + 100 * k) = [digitChar (k mod 10), CHR ''0'', CHR ''1'']"
proof -
  have a: "(1 + 100 * k) div 100 = k" by simp
  have b: "(1 + 100 * k) div 10 = 10 * k"
    using div_mult_self1[of 10 1 "10 * k"] by simp
  have c: "(1 + 100 * k) mod 10 = 1"
    using mod_mult_self1[of 1 "10 * k" 10] by simp
  have d: "digitChar 1 = CHR ''1''" by code_simp
  have e: "(10 * k) mod 10 = 0" by simp
  show ?thesis unfolding batchSuffix_digits a b c e d digitChar_0 by (rule refl)
qed

lemma downloadLoop_gs_Suc:
  "downloadLoop_gs (Suc fuel) store cfg i csv reqs =
     (if batchPresent store cfg i
      then downloadLoop_gs fuel store cfg (i + 100) (csv @ batchBody store cfg i) (reqs @ batchRequests cfg i)
      else (Some csv, reqs @ batchRequests cfg i))"
  by (simp add: Let_def batchPresent_def batchBody_def batchRequests_def authFetch_def)

lemma shift_upt:
  "map (\<lambda>k. f (i + 100 * k)) [0..<Suc n] = f (i::nat) # map (\<lambda>k. f ((i + 100) + 100 * k)) [0..<n]"
  by (simp add: map_upt_Suc add.assoc del: upt_Suc)

lemma downloadLoop_gs_run:
  "\<forall>k<n. batchPresent store cfg (i + 100 * k) \<Longrightarrow> \<not> batchPresent store cfg (i + 100 * n) \<Longrightarrow> n < fuel \<Longrightarrow>
   downloadLoop_gs fuel store cfg i csv reqs =
     (Some (csv @ concat (map (\<lambda>k. batchBody store cfg (i + 100 * k)) [0..<n])),
      reqs @ concat (map (\<lambda>k. batchRequests cfg (i + 100 * k)) [0..<Suc n]))"
proof (induction n arbitrary: i csv reqs fuel)
  case 0
  then obtain f where f: "fuel = Suc f" by (cases fuel) auto
  from 0 show ?case
    unfolding f downloadLoop_gs_Suc by simp
next
  case (Suc n)
  then obtain f where f: "fuel = Suc f" by (cases fuel) auto
  have here: "batchPresent store cfg i" using Suc.prems(1) by force
  have rest: "\<forall>k<n. batchPresent store cfg ((i + 100) + 100 * k)"
  proof (intro allI impI)
    fix k assume "k < n"
    then have "batchPresent store cfg (i + 100 * Suc k)" using Suc.prems(1) by blast
    then show "batchPresent store cfg ((i + 100) + 100 * k)" by (simp add: add.assoc)
  qed
  have stop: "\<not> batchPresent store cfg ((i + 100) + 100 * n)"
    using Suc.prems(2) by (simp add: add.assoc)
  have lt: "n < f" using Suc.prems(3) f by simp
  have step: "downloadLoop_gs fuel store cfg i csv reqs =
      downloadLoop_gs f store cfg (i + 100) (csv @ batchBody store cfg i) (reqs @ batchRequests cfg i)"
    unfolding f downloadLoop_gs_Suc using here by simp
  show ?case
    unfolding step Suc.IH[OF rest stop lt] shift_upt[of _ i "Suc n"] shift_upt[of _ i n] by simp
qed

lemma batchPresent_period: "batchPresent store cfg (i + 1000) = batchPresent store cfg i"
  by (simp add: batchPresent_def urls_period)

lemma present_all:
  assumes "\<forall>d<10. batchPresent store cfg (1 + 100 * d)"
  shows "batchPresent store cfg (1 + 100 * k)"
proof (induction k rule: less_induct)
  case (less k)
  show ?case
  proof (cases "k < 10")
    case True
    then show ?thesis using assms by blast
  next
    case False
    then have "k - 10 < k" and e: "1 + 100 * k = (1 + 100 * (k - 10)) + 1000" by simp_all
    then have "batchPresent store cfg (1 + 100 * (k - 10))" using less by blast
    then show ?thesis unfolding e by (simp only: batchPresent_period)
  qed
qed

lemma downloadLoop_gs_forever:
  assumes "\<And>k. batchPresent store cfg (i + 100 * k)"
  shows "fst (downloadLoop_gs fuel store cfg i csv reqs) = None"
  using assms
proof (induction fuel arbitrary: i csv reqs)
  case 0
  then show ?case by simp
next
  case (Suc fuel)
  have here: "batchPresent store cfg i" using Suc.prems[of 0] by simp
  have rest: "\<And>k. batchPresent store cfg ((i + 100) + 100 * k)"
    using Suc.prems[of "Suc _"] by (simp add: add.assoc)
  show ?case
    unfolding downloadLoop_gs_Suc using here Suc.IH[OF rest] by simp
qed

lemma downloadLoop_gs_requests:
  "\<exists>n. snd (downloadLoop_gs fuel store cfg i csv reqs) =
     reqs @ concat (map (\<lambda>k. batchRequests cfg (i + 100 * k)) [0..<n])"
proof (induction fuel arbitrary: i csv reqs)
  case 0
  have "snd (downloadLoop_gs 0 store cfg i csv reqs) = reqs @ concat (map (\<lambda>k. batchRequests cfg (i + 100 * k)) [0..<0])"
    by simp
  then show ?case by blast
next
  case (Suc fuel)
  show ?case
  proof (cases "batchPresent store cfg i")
    case True
    from Suc.IH[of "i + 100" "csv @ batchBody store cfg i" "reqs @ batchRequests cfg i"]
    obtain n where n: "snd (downloadLoop_gs fuel store cfg (i + 100) (csv @ batchBody store cfg i) (reqs @ batchRequests cfg i))
       = (reqs @ batchRequests cfg i) @ concat (map (\<lambda>k. batchRequests cfg ((i + 100) + 100 * k)) [0..<n])" by blast
    have "snd (downloadLoop_gs (Suc fuel) store cfg i csv reqs) = reqs @ concat (map (\<lambda>k. batchRequests cfg (i + 100 * k)) [0..<Suc n])"
      unfolding downloadLoop_gs_Suc shift_upt[of _ i n] using True n by simp
    then show ?thesis by blast
  next
    case False
    have "snd (downloadLoop_gs (Suc fuel) store cfg i csv reqs) = reqs @ concat (map (\<lambda>k. batchRequests cfg (i + 100 * k)) [0..<Suc 0])"
      unfolding downloadLoop_gs_Suc using False by simp
    then show ?thesis by blast
  qed
qed


lemma downloadLoop_js_Suc:
  "downloadLoop_js (Suc fuel) store cfg i csv reqs =
     (if responseCode (store (urlLabel cfg i)) = 200
      then downloadLoop_js fuel store cfg (i + 100) (csv @ contentText (store (urlLabel cfg i))) (reqs @ [urlLabel cfg i])
      else (Some csv, reqs @ [urlLabel cfg i]))"
  by (simp add: Let_def)

lemma downloadLoop_js_run:
  "\<forall>k<n. responseCode (store (urlLabel cfg (i + 100 * k))) = 200 \<Longrightarrow>
   responseCode (store (urlLabel cfg (i + 100 * n))) \<noteq> 200 \<Longrightarrow> n < fuel \<Longrightarrow>
   downloadLoop_js fuel store cfg i csv reqs =
     (Some (csv @ concat (map (\<lambda>k. contentText (store (urlLabel cfg (i + 100 * k)))) [0..<n])),
      reqs @ map (\<lambda>k. urlLabel cfg (i + 100 * k)) [0..<Suc n])"
proof (induction n arbitrary: i csv reqs fuel)
  case 0
  then obtain f where f: "fuel = Suc f" by (cases fuel) auto
  from 0 show ?case
    unfolding f downloadLoop_js_Suc by simp
next
  case (Suc n)
  then obtain f where f: "fuel = Suc f" by (cases fuel) auto
  have here: "responseCode (store (urlLabel cfg i)) = 200" using Suc.prems(1) by force
  have rest: "\<forall>k<n. responseCode (store (urlLabel cfg ((i + 100) + 100 * k))) = 200"
  proof (intro allI impI)
    fix k assume "k < n"
    then have "responseCode (store (urlLabel cfg (i + 100 * Suc k))) = 200" using Suc.prems(1) by blast
    then show "responseCode (store (urlLabel cfg ((i + 100) + 100 * k))) = 200" by (simp add: add.assoc)
  qed
  have stop: "responseCode (store (urlLabel cfg ((i + 100) + 100 * n))) \<noteq> 200"
    using Suc.prems(2) by (simp add: add.assoc)
  have lt: "n < f" using Suc.prems(3) f by simp
  have step: "downloadLoop_js fuel store cfg i csv reqs =
      downloadLoop_js f store cfg (i + 100) (csv @ contentText (store (urlLabel cfg i))) (reqs @ [urlLabel cfg i])"
    unfolding f downloadLoop_js_Suc using here by simp
  show ?case
    unfolding step Suc.IH[OF rest stop lt]
    using shift_upt[of "\<lambda>x. contentText (store (urlLabel cfg x))" i n]
      shift_upt[of "urlLabel cfg" i "Suc n"]
    by (simp del: upt_Suc)
qed

lemma downloadLoop_js_forever:
  assumes "\<And>k. responseCode (store (urlLabel cfg (i + 100 * k))) = 200"
  shows "fst (downloadLoop_js fuel store cfg i csv reqs) = None"
  using assms
proof (induction fuel arbitrary: i csv reqs)
  case 0
  then show ?case by simp
next
  case (Suc fuel)
  have here: "responseCode (store (urlLabel cfg i)) = 200" using Suc.prems[of 0] by simp
  have rest: "\<And>k. responseCode (store (urlLabel cfg ((i + 100) + 100 * k))) = 200"
    using Suc.prems[of "Suc _"] by (simp add: add.assoc)
  show ?case
    unfolding downloadLoop_js_Suc using here Suc.IH[OF rest] by simp
qed

lemma downloadLoop_js_requests:
  "\<exists>n. snd (downloadLoop_js fuel store cfg i csv reqs) =
     reqs @ map (\<lambda>k. urlLabel cfg (i + 100 * k)) [0..<n]"
proof (induction fuel arbitrary: i csv reqs)
  case 0
  have "snd (downloadLoop_js 0 store cfg i csv reqs) = reqs @ map (\<lambda>k. urlLabel cfg (i + 100 * k)) [0..<0]"
    by simp
  then show ?case by blast
next
  case (Suc fuel)
  show ?case
  proof (cases "responseCode (store (urlLabel cfg i)) = 200")
    case True
    from Suc.IH[of "i + 100" "csv @ contentText (store (urlLabel cfg i))" "reqs @ [urlLabel cfg i]"]
    obtain n where n: "snd (downloadLoop_js fuel store cfg (i + 100) (csv @ contentText (store (urlLabel cfg i))) (reqs @ [urlLabel cfg i]))
       = (reqs @ [urlLabel cfg i]) @ map (\<lambda>k. urlLabel cfg ((i + 100) + 100 * k)) [0..<n]" by blast
    have "snd (downloadLoop_js (Suc fuel) store cfg i csv reqs) = reqs @ map (\<lambda>k. urlLabel cfg (i + 100 * k)) [0..<Suc n]"
      unfolding downloadLoop_js_Suc using True n shift_upt[of "urlLabel cfg" i n] by (simp del: upt_Suc)
    then show ?thesis by blast
  next
    case False
    have "snd (downloadLoop_js (Suc fuel) store cfg i csv reqs) = reqs @ map (\<lambda>k. urlLabel cfg (i + 100 * k)) [0..<Suc 0]"
      unfolding downloadLoop_js_Suc using False by simp
    then show ?thesis by blast
  qed
qed

lemma digit_suffixes: "d < 10 \<Longrightarrow> [digitChar d, CHR ''0'', CHR ''1''] \<in> set loopSuffixes"
proof -
  assume "d < 10"
  then have "d \<in> set [0..<10]" by simp
  moreover have "\<forall>d \<in> set [0..<10]. [digitChar d, CHR ''0'', CHR ''1''] \<in> set loopSuffixes"
    by code_simp
  ultimately show ?thesis by blast
qed

lemma batchSuffix_in_loopSuffixes: "batchSuffix (1 + 100 * k) \<in> set loopSuffixes"
  unfolding batchSuffix_loop by (rule digit_suffixes) simp

lemma loopSuffixes_batch: "s \<in> set loopSuffixes \<Longrightarrow> \<exists>d<10. s = batchSuffix (1 + 100 * d)"
proof -
  have "\<forall>s \<in> set loopSuffixes. \<exists>d \<in> set [0..<10]. s = [digitChar d, CHR ''0'', CHR ''1'']"
    by code_simp
  moreover assume "s \<in> set loopSuffixes"
  ultimately obtain d where "d \<in> set [0..<10]" "s = [digitChar d, CHR ''0'', CHR ''1'']" by blast
  then have "d < 10" and "s = [digitChar (d mod 10), CHR ''0'', CHR ''1'']" by simp_all
  then have "d < 10" and "s = batchSuffix (1 + 100 * d)" by (simp_all only: batchSuffix_loop)
  then show ?thesis by blast
qed

lemma urlLabel_file: "urlLabel cfg i = labelsFile cfg (batchSuffix i)"
  by (simp add: urlLabel_def labelsFile_def batchId_def)

lemma urlFeature_file: "urlFeature cfg i = featuresFile cfg (batchSuffix i)"
  by (simp add: urlFeature_def featuresFile_def batchId_def)

section \<open>The paragraph dictionary: lemmas\<close>

subsection \<open>Sorting\<close>

lemma mset_sortInsert: "mset (sortInsert c x ys) = add_mset x (mset ys)"
  by (induction ys) auto

lemma set_sortInsert: "set (sortInsert c x ys) = insert x (set ys)"
  by (induction ys) auto

lemma stableSort_snoc: "stableSort c (xs @ [x]) = sortInsert c x (stableSort c xs)"
  by (simp add: stableSort_def)

lemma mset_stableSort: "mset (stableSort c xs) = mset xs"
  by (induction xs rule: rev_induct) (simp_all add: stableSort_snoc mset_sortInsert, simp add: stableSort_def)

lemma isRearrangement_mset: "isRearrangement xs ys \<Longrightarrow> mset xs = mset ys"
proof (induction xs arbitrary: ys)
  case Nil
  then show ?case by simp
next
  case (Cons x xs)
  from Cons.prems have mem: "x \<in> set ys" and rest: "isRearrangement xs (remove1 x ys)"
    by simp_all
  from Cons.IH[OF rest] have "mset xs = mset (remove1 x ys)" .
  then show ?case using mem by simp
qed

lemma mset_jsSort: "mset (jsSort pf c xs) = mset xs"
  by (simp add: jsSort_def mset_stableSort isRearrangement_mset)

lemma set_jsSort: "set (jsSort pf c xs) = set xs"
  using mset_jsSort[of pf c xs] by (metis set_mset_mset)

lemma sortInsert_at_end: "\<forall>y \<in> set ys. \<not> c x y < 0 \<Longrightarrow> sortInsert c x ys = ys @ [x]"
  by (induction ys) auto

lemma sorted_sortInsert:
  "sorted (map key ys) \<Longrightarrow> \<forall>y \<in> set ys. (c x y < 0) = (key x < (key y :: 'k::linorder)) \<Longrightarrow>
   sorted (map key (sortInsert c x ys))"
  by (induction ys) (auto simp add: set_sortInsert)

lemma filter_sortInsert:
  "sorted (map key ys) \<Longrightarrow> \<forall>y \<in> set ys. (c x y < 0) = (key x < (key y :: 'k::linorder)) \<Longrightarrow>
   filter (\<lambda>z. v = key z) (sortInsert c x ys) = filter (\<lambda>z. v = key z) (ys @ [x])"
proof (induction ys)
  case Nil
  then show ?case by simp
next
  case (Cons y ys)
  show ?case
  proof (cases "c x y < 0")
    case True
    then have lt: "key x < key y" using Cons.prems(2) by simp
    have "\<forall>z \<in> set (y # ys). key x < key z"
      using lt Cons.prems(1) by auto
    then have "v = key x \<Longrightarrow> filter (\<lambda>z. v = key z) (y # ys) = []"
      by (auto simp add: filter_empty_conv)
    then show ?thesis using True by auto
  next
    case False
    then show ?thesis using Cons by auto
  qed
qed

lemma stableSort_sorted:
  "sorted (map key xs) \<Longrightarrow> \<forall>a \<in> set xs. \<forall>b \<in> set xs. (c a b < 0) = (key a < (key b :: 'k::linorder)) \<Longrightarrow>
   stableSort c xs = xs"
proof (induction xs rule: rev_induct)
  case Nil
  then show ?case by (simp add: stableSort_def)
next
  case (snoc x xs)
  have s: "sorted (map key xs)" using snoc.prems(1) by (simp add: sorted_append)
  have ih: "stableSort c xs = xs" using snoc.IH s snoc.prems(2) by simp
  have "\<forall>y \<in> set xs. key y \<le> key x" using snoc.prems(1) by (simp add: sorted_append)
  then have "\<forall>y \<in> set xs. \<not> c x y < 0" using snoc.prems(2) by auto
  then show ?case by (simp add: stableSort_snoc ih sortInsert_at_end)
qed

lemma stableSort_sort_key_snoc:
  assumes agree: "\<forall>a \<in> set (xs @ [x]). \<forall>b \<in> set (xs @ [x]). (c a b < 0) = (key a < (key b :: 'k::linorder))"
  shows "stableSort c (sort_key key xs @ [x]) = sort_key key (xs @ [x])"
proof -
  let ?S = "sort_key key xs"
  have sS: "sorted (map key ?S)" by simp
  have agS: "\<forall>a \<in> set ?S. \<forall>b \<in> set ?S. (c a b < 0) = (key a < key b)" using agree by simp
  have agx: "\<forall>y \<in> set ?S. (c x y < 0) = (key x < key y)" using agree by simp
  have 1: "stableSort c (?S @ [x]) = sortInsert c x ?S"
    using stableSort_sorted[where key=key and c=c and xs="?S"] sS agS by (simp add: stableSort_snoc)
  have "sort_key key (xs @ [x]) = sortInsert c x ?S"
  proof (rule properties_for_sort_key)
    show "mset (sortInsert c x ?S) = mset (xs @ [x])" by (simp add: mset_sortInsert)
    show "sorted (map key (sortInsert c x ?S))" using sS agx by (rule sorted_sortInsert[where key=key and c=c and x=x])
    fix k assume "k \<in> set (sortInsert c x ?S)"
    have "filter (\<lambda>z. key k = key z) (sortInsert c x ?S) = filter (\<lambda>z. key k = key z) (?S @ [x])"
      using sS agx by (rule filter_sortInsert[where key=key and c=c and x=x])
    also have "\<dots> = filter (\<lambda>z. key k = key z) (xs @ [x])"
      using sort_key_stable[of key "key k" xs] by (simp add: eq_commute)
    finally show "filter (\<lambda>z. key k = key z) (sortInsert c x ?S) = filter (\<lambda>z. key k = key z) (xs @ [x])" .
  qed
  with 1 show ?thesis by simp
qed

lemma areaCompare_numeric:
  "hasNumericArea a \<Longrightarrow> hasNumericArea b \<Longrightarrow> (areaCompare pf a b < 0) = (- areaOf a < - areaOf b)"
  by (auto simp add: hasNumericArea_def areaOf_def areaCompare_def split: option.splits cell.splits)

lemma areaCompare_areaOf:
  "hasNumericArea a \<Longrightarrow> hasNumericArea b \<Longrightarrow>
   areaCompare pf a b = (if areaOf a < areaOf b then 1 else if areaOf a = areaOf b then 0 else - 1)"
  by (auto simp add: hasNumericArea_def areaOf_def areaCompare_def split: option.splits cell.splits)

lemma consistentOn_numeric:
  assumes "\<forall>f \<in> set xs. hasNumericArea f"
  shows "consistentOn (areaCompare pf) xs"
  unfolding consistentOn_def list_all_iff
proof (intro ballI conjI impI)
  fix a assume "a \<in> set xs"
  then show "areaCompare pf a a = 0" using assms by (simp add: areaCompare_areaOf)
next
  fix a b assume "a \<in> set xs" "b \<in> set xs" "areaCompare pf a b = 0"
  then show "areaCompare pf b a = 0" using assms by (simp add: areaCompare_areaOf split: if_splits)
next
  fix a b c assume "a \<in> set xs" "b \<in> set xs" "c \<in> set xs"
    "areaCompare pf a b = 0 \<and> areaCompare pf b c = 0"
  then show "areaCompare pf a c = 0" using assms by (simp add: areaCompare_areaOf split: if_splits)
next
  fix a b c assume "a \<in> set xs" "b \<in> set xs" "c \<in> set xs"
    "areaCompare pf a b < 0 \<and> areaCompare pf b c < 0"
  then show "areaCompare pf a c < 0" using assms by (simp add: areaCompare_areaOf split: if_splits)
next
  fix a b c assume "a \<in> set xs" "b \<in> set xs" "c \<in> set xs"
    "0 < areaCompare pf a b \<and> 0 < areaCompare pf b c"
  then show "0 < areaCompare pf a c" using assms by (simp add: areaCompare_areaOf split: if_splits)
qed

lemma bucket_push:
  assumes "\<forall>f \<in> set (xs @ [x]). hasNumericArea f"
  shows "jsSort pf (areaCompare pf) (sortedByAreaDescending xs @ [x]) = sortedByAreaDescending (xs @ [x])"
proof -
  have "\<forall>f \<in> set (sortedByAreaDescending xs @ [x]). hasNumericArea f"
    using assms by (simp add: sortedByAreaDescending_def)
  then have "jsSort pf (areaCompare pf) (sortedByAreaDescending xs @ [x]) =
      stableSort (areaCompare pf) (sortedByAreaDescending xs @ [x])"
    by (simp add: jsSort_def consistentOn_numeric)
  also have "\<dots> = sortedByAreaDescending (xs @ [x])"
    unfolding sortedByAreaDescending_def
    by (rule stableSort_sort_key_snoc) (use assms areaCompare_numeric in auto)
  finally show ?thesis .
qed

subsection \<open>Assignments to a property\<close>

lemma map_of_insertProp:
  "map_of obj key = None \<Longrightarrow> map_of (insertProp key v obj) x = ((map_of obj)(key \<mapsto> v)) x"
proof (induction obj)
  case Nil
  then show ?case by simp
next
  case (Cons kw obj)
  obtain k w where kw: "kw = (k, w)" by (cases kw)
  from Cons.prems kw have ne: "k \<noteq> key" and rest: "map_of obj key = None"
    by (auto split: if_splits)
  show ?case
  proof (cases "listedBefore key k")
    case True
    then show ?thesis using kw by auto
  next
    case False
    then have "map_of (insertProp key v (kw # obj)) x = ((map_of (insertProp key v obj))(k \<mapsto> w)) x"
      using kw by simp
    also have "\<dots> = (if x = k then Some w else ((map_of obj)(key \<mapsto> v)) x)"
      using Cons.IH[OF rest] by simp
    also have "\<dots> = ((map_of (kw # obj))(key \<mapsto> v)) x" using kw ne by auto
    finally show ?thesis .
  qed
qed

lemma map_of_setProp: "map_of (setProp key v obj) = (map_of obj)(key \<mapsto> v)"
proof
  fix x
  show "map_of (setProp key v obj) x = ((map_of obj)(key \<mapsto> v)) x"
  proof (cases "map_of obj key")
    case None
    then show ?thesis using map_of_insertProp[OF None, of v x] by (simp add: setProp_def)
  next
    case (Some w)
    then show ?thesis by (simp add: setProp_def update_conv')
  qed
qed

lemma length_insertProp: "length (insertProp key v obj) = length obj + 1"
  by (induction obj) auto

lemma total_insertProp:
  "sum_list (map (\<lambda>(k, b). length b) (insertProp key v obj))
   = sum_list (map (\<lambda>(k, b). length b) obj) + length v"
  by (induction obj) auto


subsection \<open>The loop over the rows\<close>

lemma processRow_no_match:
  "map_of (rowFeatures pf h row) ''id'' = Some (Str s) \<Longrightarrow> idMatch s = None \<Longrightarrow>
   processRow pf h st row = Inr st"
  by (simp add: processRow_def)

lemma processRow_match:
  "map_of (rowFeatures pf h row) ''id'' = Some (Str s) \<Longrightarrow> idMatch s = Some (n, p, q) \<Longrightarrow>
   processRow pf h st row =
     Inr \<lparr>paraDict = setProp p
             (jsSort pf (areaCompare pf)
                ((case map_of (paraDict st) p of None \<Rightarrow> [] | Some b \<Rightarrow> b) @ [rowFeatures pf h row]))
             (paraDict st),
          pageCount = (case map_of (paraDict st) p of None \<Rightarrow> pageCount st + 1 | Some b \<Rightarrow> pageCount st),
          paraCount = paraCount st + 1\<rparr>"
  by (simp add: processRow_def Let_def)

lemma pageOf_no_match: "map_of f ''id'' = Some (Str s) \<Longrightarrow> idMatch s = None \<Longrightarrow> pageOf f = None"
  by (simp add: pageOf_def)

lemma pageOf_match: "map_of f ''id'' = Some (Str s) \<Longrightarrow> idMatch s = Some (n, p, q) \<Longrightarrow> pageOf f = Some p"
  by (simp add: pageOf_def)

lemma sortedByAreaDescending_Nil: "sortedByAreaDescending [] = []"
  by (simp add: sortedByAreaDescending_def)

lemma forEachRow_sorted:
  assumes "\<forall>row \<in> set rows. hasTextId (rowFeatures pf h row)"
    and "\<forall>row \<in> set rows. pageOf (rowFeatures pf h row) \<noteq> None \<longrightarrow> hasNumericArea (rowFeatures pf h row)"
    and "\<forall>f \<in> set seen. pageOf f \<noteq> None \<longrightarrow> hasNumericArea f"
    and "\<forall>page. map_of (paraDict st) page =
           (if pageRecords page seen = [] then None
            else Some (sortedByAreaDescending (pageRecords page seen)))"
  shows "\<exists>st'. forEachRow pf h st rows = Inr st' \<and>
           (\<forall>page. map_of (paraDict st') page =
              (if pageRecords page (seen @ map (rowFeatures pf h) rows) = [] then None
               else Some (sortedByAreaDescending (pageRecords page (seen @ map (rowFeatures pf h) rows)))))"
  using assms
proof (induction rows arbitrary: st seen)
  case Nil
  then show ?case by simp
next
  case (Cons row rows)
  let ?f = "rowFeatures pf h row"
  from Cons.prems(1) obtain s where s: "map_of ?f ''id'' = Some (Str s)"
    by (auto simp add: hasTextId_def split: option.splits cell.splits)
  have ids': "\<forall>row \<in> set rows. hasTextId (rowFeatures pf h row)"
    using Cons.prems(1) by simp
  have areas': "\<forall>row \<in> set rows. pageOf (rowFeatures pf h row) \<noteq> None \<longrightarrow> hasNumericArea (rowFeatures pf h row)"
    using Cons.prems(2) by simp
  have seen': "\<forall>f \<in> set (seen @ [?f]). pageOf f \<noteq> None \<longrightarrow> hasNumericArea f"
    using Cons.prems(2,3) by simp
  have app: "seen @ map (rowFeatures pf h) (row # rows) = (seen @ [?f]) @ map (rowFeatures pf h) rows"
    by simp
  show ?case
  proof (cases "idMatch s")
    case None
    have pr: "processRow pf h st row = Inr st" using s None by (rule processRow_no_match)
    have pg: "pageOf ?f = None" using s None by (rule pageOf_no_match)
    have inv': "\<forall>page. map_of (paraDict st) page =
           (if pageRecords page (seen @ [?f]) = [] then None
            else Some (sortedByAreaDescending (pageRecords page (seen @ [?f]))))"
      using Cons.prems(4) pg by (simp add: pageRecords_def)
    from Cons.IH[OF ids' areas' seen' inv'] show ?thesis
      unfolding app by (simp add: pr)
  next
    case (Some m)
    obtain n p q where m: "m = (n, p, q)" by (cases m) auto
    have match: "idMatch s = Some (n, p, q)" using Some m by simp
    have pg: "pageOf ?f = Some p" using s match by (rule pageOf_match)
    have num: "hasNumericArea ?f" using Cons.prems(2) pg by simp
    let ?bucket = "case map_of (paraDict st) p of None \<Rightarrow> [] | Some b \<Rightarrow> b"
    let ?st = "\<lparr>paraDict = setProp p (jsSort pf (areaCompare pf) (?bucket @ [?f])) (paraDict st),
          pageCount = (case map_of (paraDict st) p of None \<Rightarrow> pageCount st + 1 | Some b \<Rightarrow> pageCount st),
          paraCount = paraCount st + 1\<rparr>"
    have pr: "processRow pf h st row = Inr ?st" using s match by (rule processRow_match)
    have bucket: "?bucket = sortedByAreaDescending (pageRecords p seen)"
      using Cons.prems(4) by (simp add: sortedByAreaDescending_Nil)
    have allnum: "\<forall>f \<in> set (pageRecords p seen @ [?f]). hasNumericArea f"
      using Cons.prems(3) num by (auto simp add: pageRecords_def)
    have push: "jsSort pf (areaCompare pf) (?bucket @ [?f]) = sortedByAreaDescending (pageRecords p (seen @ [?f]))"
      unfolding bucket using bucket_push[OF allnum, of pf] pg by (simp add: pageRecords_def)
    have ne: "pageRecords p (seen @ [?f]) \<noteq> []" using pg by (simp add: pageRecords_def)
    have other: "page \<noteq> p \<Longrightarrow> pageRecords page (seen @ [?f]) = pageRecords page seen" for page
      using pg by (simp add: pageRecords_def)
    have inv': "\<forall>page. map_of (paraDict ?st) page =
           (if pageRecords page (seen @ [?f]) = [] then None
            else Some (sortedByAreaDescending (pageRecords page (seen @ [?f]))))"
    proof
      fix page
      show "map_of (paraDict ?st) page =
           (if pageRecords page (seen @ [?f]) = [] then None
            else Some (sortedByAreaDescending (pageRecords page (seen @ [?f]))))"
      proof (cases "page = p")
        case True
        then show ?thesis using push ne by (simp add: map_of_setProp)
      next
        case False
        then show ?thesis using Cons.prems(4) other[OF False] by (simp add: map_of_setProp)
      qed
    qed
    from Cons.IH[OF ids' areas' seen' inv'] show ?thesis
      unfolding app by (simp add: pr)
  qed
qed

subsection \<open>Reading the sheet\<close>

lemma getLastColumn_pos: "0 < getLastColumn g \<Longrightarrow> \<exists>row \<in> set g. 0 < usedWidth row"
proof (induction g)
  case Nil
  then show ?case by (simp add: getLastColumn_def)
next
  case (Cons row g)
  then have "0 < max (usedWidth row) (getLastColumn g)" by (simp add: getLastColumn_def)
  then consider "0 < usedWidth row" | "0 < getLastColumn g" by (auto simp add: max_def split: if_splits)
  then show ?case using Cons.IH by cases auto
qed

lemma getLastRow_pos: "\<exists>row \<in> set g. 0 < usedWidth row \<Longrightarrow> 0 < getLastRow g"
  by (auto simp add: getLastRow_def dropWhile_eq_Nil_conv)

lemma getSheet_Some: "getSheet cfg book = Some sheet \<Longrightarrow>
  \<exists>i. sheetIndex book (pdfId cfg) = Some i \<and> sheet = book ! i"
  by (auto simp add: getSheet_def getSheetByName_def)

lemma build_reads:
  assumes "getSheet cfg book = Some sheet" and "0 < getLastColumn (grid sheet)"
  shows "\<exists>headerList vals.
           getHeaderList cfg book = Inr headerList \<and>
           dataRecords pf sheet = map (rowFeatures pf headerList) vals \<and>
           buildParaDictFromSheet pf cfg book =
             forEachRow pf headerList \<lparr>paraDict = [], pageCount = 0, paraCount = 0\<rparr> vals"
proof -
  have r: "0 < getLastRow (grid sheet)"
    using assms(2) getLastColumn_pos getLastRow_pos by blast
  obtain hs where hs: "getValues (grid sheet) 1 1 1 (getLastColumn (grid sheet)) = Inr hs"
    using assms(2) by (auto simp add: getValues_def)
  obtain vals where vals: "getValues (grid sheet) 2 1 (getLastRow (grid sheet)) (getLastColumn (grid sheet)) = Inr vals"
    using assms(2) r by (auto simp add: getValues_def)
  have h: "getHeaderList cfg book = Inr (hs ! 0)"
    using assms(1) hs by (simp add: getHeaderList_def)
  have d: "dataRecords pf sheet = map (rowFeatures pf (hs ! 0)) vals"
    using hs vals by (simp add: dataRecords_def)
  have b: "buildParaDictFromSheet pf cfg book =
             forEachRow pf (hs ! 0) \<lparr>paraDict = [], pageCount = 0, paraCount = 0\<rparr> vals"
    using assms(1) h vals by (simp add: buildParaDictFromSheet_def)
  from h d b show ?thesis by blast
qed


lemma sortedByAreaDescending_props:
  "sorted_wrt (\<lambda>a b. areaOf b \<le> areaOf a) (sortedByAreaDescending xs)"
  "mset (sortedByAreaDescending xs) = mset xs"
  "filter (\<lambda>f. areaOf f = q) (sortedByAreaDescending xs) = filter (\<lambda>f. areaOf f = q) xs"
proof -
  have "sorted (map (\<lambda>f. - areaOf f) (sortedByAreaDescending xs))"
    by (simp add: sortedByAreaDescending_def)
  then show "sorted_wrt (\<lambda>a b. areaOf b \<le> areaOf a) (sortedByAreaDescending xs)"
    by (simp add: sorted_map)
  show "mset (sortedByAreaDescending xs) = mset xs"
    by (simp add: sortedByAreaDescending_def)
  have "filter (\<lambda>f. - areaOf f = - q) (sortedByAreaDescending xs) = filter (\<lambda>f. - areaOf f = - q) xs"
    unfolding sortedByAreaDescending_def by (rule sort_key_stable)
  then show "filter (\<lambda>f. areaOf f = q) (sortedByAreaDescending xs) = filter (\<lambda>f. areaOf f = q) xs"
    by simp
qed

lemma forEachRow_append:
  "forEachRow pf h st (xs @ ys) =
     (case forEachRow pf h st xs of Inl e \<Rightarrow> Inl e | Inr st' \<Rightarrow> forEachRow pf h st' ys)"
  by (induction xs arbitrary: st) (auto split: sum.splits)

lemma processRow_keeps_pages:
  assumes inv: "\<forall>page bucket. map_of (paraDict st) page = Some bucket \<longrightarrow> (\<forall>f \<in> set bucket. pageOf f = Some page)"
    and run: "processRow pf h st row = Inr st'"
  shows "\<forall>page bucket. map_of (paraDict st') page = Some bucket \<longrightarrow> (\<forall>f \<in> set bucket. pageOf f = Some page)"
proof (cases "map_of (rowFeatures pf h row) ''id''")
  case None
  then show ?thesis using run by (simp add: processRow_def)
next
  case (Some c)
  show ?thesis
  proof (cases c)
    case (Num q)
    then show ?thesis using run Some by (simp add: processRow_def)
  next
    case (Str s)
    then have s: "map_of (rowFeatures pf h row) ''id'' = Some (Str s)" using Some by simp
    show ?thesis
    proof (cases "idMatch s")
      case None
      then show ?thesis using run inv processRow_no_match[OF s None, of st] by simp
    next
      case (Some m)
      obtain n p q where m: "idMatch s = Some (n, p, q)" using Some by (cases m) auto
      have pg: "pageOf (rowFeatures pf h row) = Some p" using s m by (rule pageOf_match)
      have old: "\<forall>f \<in> set (case map_of (paraDict st) p of None \<Rightarrow> [] | Some b \<Rightarrow> b). pageOf f = Some p"
      proof (cases "map_of (paraDict st) p")
        case None
        then show ?thesis by simp
      next
        case (Some b)
        then show ?thesis using inv by simp
      qed
      have st': "paraDict st' = setProp p
             (jsSort pf (areaCompare pf)
                ((case map_of (paraDict st) p of None \<Rightarrow> [] | Some b \<Rightarrow> b) @ [rowFeatures pf h row]))
             (paraDict st)"
        using run processRow_match[OF s m, of st] by auto
      show ?thesis
      proof (intro allI impI)
        fix page bucket assume b: "map_of (paraDict st') page = Some bucket"
        show "\<forall>f \<in> set bucket. pageOf f = Some page"
        proof (cases "page = p")
          case True
          then have "bucket = jsSort pf (areaCompare pf)
                ((case map_of (paraDict st) p of None \<Rightarrow> [] | Some b \<Rightarrow> b) @ [rowFeatures pf h row])"
            using b st' by (simp add: map_of_setProp)
          then show ?thesis using old pg True by (simp add: set_jsSort)
        next
          case False
          then have "map_of (paraDict st) page = Some bucket" using b st' by (simp add: map_of_setProp)
          then show ?thesis using inv by blast
        qed
      qed
    qed
  qed
qed

lemma forEachRow_keeps_pages:
  "\<forall>page bucket. map_of (paraDict st) page = Some bucket \<longrightarrow> (\<forall>f \<in> set bucket. pageOf f = Some page) \<Longrightarrow>
   forEachRow pf h st rows = Inr st' \<Longrightarrow>
   \<forall>page bucket. map_of (paraDict st') page = Some bucket \<longrightarrow> (\<forall>f \<in> set bucket. pageOf f = Some page)"
proof (induction rows arbitrary: st)
  case Nil
  then show ?case by simp
next
  case (Cons row rows)
  from Cons.prems(2) obtain st1 where 1: "processRow pf h st row = Inr st1"
    and 2: "forEachRow pf h st1 rows = Inr st'"
    by (auto split: sum.splits)
  from processRow_keeps_pages[OF Cons.prems(1) 1] Cons.IH 2 show ?case by blast
qed

lemma build_keeps_pages:
  assumes "buildParaDictFromSheet pf cfg book = Inr result"
  shows "\<forall>page bucket. map_of (paraDict result) page = Some bucket \<longrightarrow> (\<forall>f \<in> set bucket. pageOf f = Some page)"
proof -
  from assms obtain h vals where
    "forEachRow pf h \<lparr>paraDict = [], pageCount = 0, paraCount = 0\<rparr> vals = Inr result"
    by (auto simp add: buildParaDictFromSheet_def split: option.splits sum.splits)
  moreover have "\<forall>page bucket. map_of (paraDict \<lparr>paraDict = [], pageCount = 0, paraCount = 0\<rparr>) page = Some bucket
      \<longrightarrow> (\<forall>f \<in> set bucket. pageOf f = Some page)" by simp
  ultimately show ?thesis using forEachRow_keeps_pages by blast
qed

lemma length_jsSort: "length (jsSort pf c xs) = length xs"
  using mset_jsSort[of pf c xs] by (metis size_mset)

lemma total_alist_update:
  "map_of al k = Some b \<Longrightarrow>
   sum_list (map (\<lambda>(k, b). length b) (AList.update k v al)) + length b
   = sum_list (map (\<lambda>(k, b). length b) al) + length v"
  by (induction al) (auto split: if_splits)

lemma length_alist_update: "map_of al k = Some b \<Longrightarrow> length (AList.update k v al) = length al"
  by (induction al) (auto split: if_splits)

lemma total_update:
  "sum_list (map (\<lambda>(k, b). length b) (setProp k v al))
      + (case map_of al k of None \<Rightarrow> 0 | Some b \<Rightarrow> length b)
   = sum_list (map (\<lambda>(k, b). length b) al) + length v"
  by (cases "map_of al k") (simp_all add: setProp_def total_insertProp total_alist_update)

lemma length_setProp:
  "length (setProp k v al) =
     (case map_of al k of None \<Rightarrow> length al + 1 | Some b \<Rightarrow> length al)"
  by (cases "map_of al k") (simp_all add: setProp_def length_insertProp length_alist_update)

lemma processRow_counts:
  assumes inv: "pageCount st = length (paraDict st) \<and>
                paraCount st = sum_list (map (\<lambda>(page, bucket). length bucket) (paraDict st))"
    and run: "processRow pf h st row = Inr st'"
  shows "pageCount st' = length (paraDict st') \<and>
         paraCount st' = sum_list (map (\<lambda>(page, bucket). length bucket) (paraDict st'))"
proof (cases "map_of (rowFeatures pf h row) ''id''")
  case None
  then show ?thesis using run by (simp add: processRow_def)
next
  case (Some c)
  show ?thesis
  proof (cases c)
    case (Num q)
    then show ?thesis using run Some by (simp add: processRow_def)
  next
    case (Str s)
    then have s: "map_of (rowFeatures pf h row) ''id'' = Some (Str s)" using Some by simp
    show ?thesis
    proof (cases "idMatch s")
      case None
      then show ?thesis using run inv processRow_no_match[OF s None, of st] by simp
    next
      case (Some m)
      obtain n p q where m: "idMatch s = Some (n, p, q)" using Some by (cases m) auto
      let ?b = "case map_of (paraDict st) p of None \<Rightarrow> [] | Some b \<Rightarrow> b"
      let ?v = "jsSort pf (areaCompare pf) (?b @ [rowFeatures pf h row])"
      have st': "st' = \<lparr>paraDict = setProp p ?v (paraDict st),
          pageCount = (case map_of (paraDict st) p of None \<Rightarrow> pageCount st + 1 | Some b \<Rightarrow> pageCount st),
          paraCount = paraCount st + 1\<rparr>"
        using run processRow_match[OF s m, of st] by simp
      have lv: "length ?v = length ?b + 1" by (simp add: length_jsSort)
      have tot: "sum_list (map (\<lambda>(k, b). length b) (setProp p ?v (paraDict st)))
          = sum_list (map (\<lambda>(k, b). length b) (paraDict st)) + 1"
        using total_update[of p ?v "paraDict st"] lv by (cases "map_of (paraDict st) p") simp_all
      have len: "length (setProp p ?v (paraDict st)) =
          (case map_of (paraDict st) p of None \<Rightarrow> length (paraDict st) + 1 | Some b \<Rightarrow> length (paraDict st))"
        by (rule length_setProp)
      show ?thesis unfolding st' using inv tot len by (simp split: option.splits)
    qed
  qed
qed

lemma forEachRow_counts:
  "pageCount st = length (paraDict st) \<and>
     paraCount st = sum_list (map (\<lambda>(page, bucket). length bucket) (paraDict st)) \<Longrightarrow>
   forEachRow pf h st rows = Inr st' \<Longrightarrow>
   pageCount st' = length (paraDict st') \<and>
     paraCount st' = sum_list (map (\<lambda>(page, bucket). length bucket) (paraDict st'))"
proof (induction rows arbitrary: st)
  case Nil
  then show ?case by simp
next
  case (Cons row rows)
  from Cons.prems(2) obtain st1 where 1: "processRow pf h st row = Inr st1"
    and 2: "forEachRow pf h st1 rows = Inr st'"
    by (auto split: sum.splits)
  from processRow_counts[OF Cons.prems(1) 1] Cons.IH 2 show ?case by blast
qed

lemma build_counts:
  assumes "buildParaDictFromSheet pf cfg book = Inr result"
  shows "pageCount result = length (paraDict result) \<and>
     paraCount result = sum_list (map (\<lambda>(page, bucket). length bucket) (paraDict result))"
proof -
  from assms obtain h vals where
    "forEachRow pf h \<lparr>paraDict = [], pageCount = 0, paraCount = 0\<rparr> vals = Inr result"
    by (auto simp add: buildParaDictFromSheet_def split: option.splits sum.splits)
  moreover have "pageCount \<lparr>paraDict = [], pageCount = 0, paraCount = 0\<rparr>
      = length (paraDict \<lparr>paraDict = [], pageCount = 0, paraCount = 0\<rparr>) \<and>
     paraCount \<lparr>paraDict = [], pageCount = 0, paraCount = 0\<rparr>
      = sum_list (map (\<lambda>(page, bucket). length bucket) (paraDict \<lparr>paraDict = [], pageCount = 0, paraCount = 0\<rparr>))"
    by simp
  ultimately show ?thesis using forEachRow_counts by blast
qed

lemma twoPageSheet_build:
  "buildParaDictFromSheet examplePlatform exampleConfig [twoPageSheet] =
     Inr \<lparr>paraDict =
            [(''9'', [[(''id'', Str ''doc-9-1''), (''area'', Num 7)]]),
             (''10'', [[(''id'', Str ''doc-10-1''), (''area'', Num 5)]]),
             (''09'', [[(''id'', Str ''doc-09-1''), (''area'', Num 3)]])],
          pageCount = 3, paraCount = 3\<rparr>"
  by code_simp

lemma exampleSheet_build:
  "buildParaDictFromSheet examplePlatform exampleConfig [exampleSheet] =
     Inr \<lparr>paraDict =
            [(''3'', [[(''id'', Str ''doc-3-2''), (''text'', Str ''world''), (''area'', Num 200), (''label'', Str ''other'')],
                      [(''id'', Str ''doc-3-1''), (''text'', Str ''hello''), (''area'', Num 50), (''label'', Str ''other'')]]),
             (''4'', [[(''id'', Str ''doc-4-1''), (''text'', Str ''again''), (''area'', Num 10), (''label'', Str ''other'')]])],
          pageCount = 2, paraCount = 3\<rparr>"
  by code_simp

section \<open>The label column: lemmas\<close>

lemma mapRows_pushDefault:
  "\<forall>row \<in> set rows. 2 \<le> length row \<Longrightarrow>
   mapRows pushDefault rows =
     Inr (map (\<lambda>x. x @ [if 100 < length (x ! 1) then ''body'' else ''other'']) rows)"
proof (induction rows)
  case Nil
  then show ?case by simp
next
  case (Cons row rows)
  have "pushDefault row = Inr (row @ [if 100 < length (row ! 1) then ''body'' else ''other''])"
    using Cons.prems by (simp add: pushDefault_def)
  moreover have "mapRows pushDefault rows =
     Inr (map (\<lambda>x. x @ [if 100 < length (x ! 1) then ''body'' else ''other'']) rows)"
    using Cons by simp
  ultimately show ?case by simp
qed

lemma mapRows_pushDefault_short:
  "\<exists>row \<in> set rows. length row < 2 \<Longrightarrow> mapRows pushDefault rows = Inl TypeError"
proof (induction rows)
  case Nil
  then show ?case by simp
next
  case (Cons row rows)
  show ?case
  proof (cases "length row < 2")
    case True
    then show ?thesis by (simp add: pushDefault_def)
  next
    case False
    then have "\<exists>row \<in> set rows. length row < 2" using Cons.prems by auto
    then have ih: "mapRows pushDefault rows = Inl TypeError" by (rule Cons.IH)
    obtain y where "pushDefault row = Inr y" using False by (simp add: pushDefault_def)
    then show ?thesis using ih by simp
  qed
qed

section \<open>Sheets: lemmas\<close>

subsection \<open>Cells\<close>

lemma cellAt_setCell_same:
  "1 \<le> r \<Longrightarrow> 1 \<le> c \<Longrightarrow> cellAt (setCell g r c v) r c = v"
  by (auto simp add: cellAt_def setCell_def Let_def nth_list_update nth_append)

lemma cellAt_row:
  "1 \<le> r \<Longrightarrow> r \<le> length g \<Longrightarrow>
   cellAt g r c = (if 1 \<le> c \<and> c \<le> length (g ! (r - 1)) then g ! (r - 1) ! (c - 1) else emptyCell)"
  by (simp add: cellAt_def)

lemma cellAt_out: "\<not> (1 \<le> r \<and> r \<le> length g) \<Longrightarrow> cellAt g r c = emptyCell"
  by (auto simp add: cellAt_def)

lemma padded_row_other:
  assumes "1 \<le> c" "c' \<noteq> c"
  shows "(if 1 \<le> c' \<and> c' \<le> length ((row @ replicate (c - length row) emptyCell)[c - 1 := v])
          then (row @ replicate (c - length row) emptyCell)[c - 1 := v] ! (c' - 1) else emptyCell)
         = (if 1 \<le> c' \<and> c' \<le> length row then row ! (c' - 1) else emptyCell)"
proof -
  let ?p = "row @ replicate (c - length row) emptyCell"
  have ne: "c' - 1 \<noteq> c - 1" if "1 \<le> c'" using assms that by simp
  consider "c' < 1" | "1 \<le> c'" "c' \<le> length row" | "length row < c'" "c' \<le> length ?p" | "length ?p < c'" "length row < c'"
    by linarith
  then show ?thesis
  proof cases
    case 1
    then show ?thesis by simp
  next
    case 2
    then have lt: "c' - 1 < length row" by linarith
    have "?p[c - 1 := v] ! (c' - 1) = ?p ! (c' - 1)"
      using ne[OF 2(1)] by (metis nth_list_update_neq)
    also have "\<dots> = row ! (c' - 1)" using lt by (simp add: nth_append)
    finally show ?thesis using 2 by simp
  next
    case 3
    then have k: "c' - 1 - length row < c - length row" by simp
    have "1 \<le> c'" using 3 by simp
    then have "?p[c - 1 := v] ! (c' - 1) = ?p ! (c' - 1)" using ne by (metis nth_list_update_neq)
    also have "\<dots> = replicate (c - length row) emptyCell ! (c' - 1 - length row)"
    proof -
      have "\<not> c' - 1 < length row" using 3 by linarith
      then show ?thesis by (simp add: nth_append)
    qed
    also have "\<dots> = emptyCell" using k by (rule nth_replicate)
    finally show ?thesis using 3 by simp
  next
    case 4
    then show ?thesis by simp
  qed
qed

lemma cellAt_setCell_other:
  assumes "1 \<le> r" "1 \<le> c" "(r', c') \<noteq> (r, c)"
  shows "cellAt (setCell g r c v) r' c' = cellAt g r' c'"
proof -
  let ?g1 = "g @ replicate (r - length g) []"
  let ?row = "?g1 ! (r - 1)"
  let ?row1 = "?row @ replicate (c - length ?row) emptyCell"
  have g: "setCell g r c v = ?g1[r - 1 := ?row1[c - 1 := v]]"
    by (simp add: setCell_def Let_def)
  have len: "r \<le> length ?g1" by simp
  have pad: "cellAt ?g1 r' c' = cellAt g r' c'"
  proof (cases "1 \<le> r' \<and> r' \<le> length g")
    case True
    then have lt: "r' - 1 < length g" by linarith
    have "?g1 ! (r' - 1) = g ! (r' - 1)" using lt by (simp add: nth_append)
    then show ?thesis using True by (simp add: cellAt_def)
  next
    case False
    show ?thesis
    proof (cases "1 \<le> r' \<and> r' \<le> length ?g1")
      case True
      then have k: "r' - 1 - length g < r - length g" and nlt: "\<not> r' - 1 < length g"
        using False by simp_all
      have "?g1 ! (r' - 1) = replicate (r - length g) [] ! (r' - 1 - length g)"
        using nlt by (simp add: nth_append)
      also have "\<dots> = []" using k by (rule nth_replicate)
      finally have e: "?g1 ! (r' - 1) = []" .
      have "cellAt ?g1 r' c' = emptyCell" unfolding cellAt_def e by auto
      moreover have "cellAt g r' c' = emptyCell" unfolding cellAt_def using False by auto
      ultimately show ?thesis by simp
    next
      case False
      then have "cellAt ?g1 r' c' = emptyCell" unfolding cellAt_def by auto
      moreover have "cellAt g r' c' = emptyCell"
        unfolding cellAt_def using \<open>\<not> (1 \<le> r' \<and> r' \<le> length g)\<close> by auto
      ultimately show ?thesis by simp
    qed
  qed
  show ?thesis
  proof (cases "r' = r")
    case False
    have "cellAt (?g1[r - 1 := ?row1[c - 1 := v]]) r' c' = cellAt ?g1 r' c'"
    proof (cases "1 \<le> r' \<and> r' \<le> length ?g1")
      case True
      then have ne: "r' - 1 \<noteq> r - 1" using False assms(1) by linarith
      have same: "(?g1[r - 1 := ?row1[c - 1 := v]]) ! (r' - 1) = ?g1 ! (r' - 1)"
        using ne by (metis nth_list_update_neq)
      have "cellAt (?g1[r - 1 := ?row1[c - 1 := v]]) r' c' =
          (if 1 \<le> c' \<and> c' \<le> length ((?g1[r - 1 := ?row1[c - 1 := v]]) ! (r' - 1))
           then (?g1[r - 1 := ?row1[c - 1 := v]]) ! (r' - 1) ! (c' - 1) else emptyCell)"
        using True by (intro cellAt_row) simp_all
      also have "\<dots> = cellAt ?g1 r' c'"
        unfolding same using True by (simp add: cellAt_row)
      finally show ?thesis .
    next
      case False
      then have "\<not> (1 \<le> r' \<and> r' \<le> length (?g1[r - 1 := ?row1[c - 1 := v]]))" by simp
      then have "cellAt (?g1[r - 1 := ?row1[c - 1 := v]]) r' c' = emptyCell" by (rule cellAt_out)
      moreover have "cellAt ?g1 r' c' = emptyCell" using False by (rule cellAt_out)
      ultimately show ?thesis by simp
    qed
    then show ?thesis using g pad by simp
  next
    case True
    then have c': "c' \<noteq> c" using assms(3) by simp
    have row: "(?g1[r - 1 := ?row1[c - 1 := v]]) ! (r - 1) = ?row1[c - 1 := v]"
      using len assms(1) by simp
    have "cellAt (?g1[r - 1 := ?row1[c - 1 := v]]) r c' =
        (if 1 \<le> c' \<and> c' \<le> length ((?g1[r - 1 := ?row1[c - 1 := v]]) ! (r - 1))
         then (?g1[r - 1 := ?row1[c - 1 := v]]) ! (r - 1) ! (c' - 1) else emptyCell)"
      using len assms(1) by (intro cellAt_row) simp_all
    also have "\<dots> = (if 1 \<le> c' \<and> c' \<le> length (?row1[c - 1 := v]) then ?row1[c - 1 := v] ! (c' - 1) else emptyCell)"
      unfolding row by (rule refl)
    also have "\<dots> = (if 1 \<le> c' \<and> c' \<le> length ?row then ?row ! (c' - 1) else emptyCell)"
      using assms(2) c' by (rule padded_row_other)
    also have "\<dots> = cellAt ?g1 r c'"
      using len assms(1) by (intro cellAt_row[symmetric]) simp_all
    finally show ?thesis using g pad True by simp
  qed
qed

subsection \<open>The text finder\<close>

lemma firstColumn_Some:
  "firstColumn P row c0 = Some c \<Longrightarrow>
   c0 \<le> c \<and> c - c0 < length row \<and> P (row ! (c - c0)) \<and> (\<forall>j < c - c0. \<not> P (row ! j))"
proof (induction row arbitrary: c0)
  case Nil
  then show ?case by simp
next
  case (Cons x xs)
  show ?case
  proof (cases "P x")
    case True
    then show ?thesis using Cons.prems by simp
  next
    case False
    then have "firstColumn P xs (Suc c0) = Some c" using Cons.prems by simp
    from Cons.IH[OF this] have ih: "Suc c0 \<le> c" "c - Suc c0 < length xs" "P (xs ! (c - Suc c0))"
      "\<forall>j < c - Suc c0. \<not> P (xs ! j)" by simp_all
    have e: "c - c0 = Suc (c - Suc c0)" using ih(1) by simp
    have "\<forall>j < c - c0. \<not> P ((x # xs) ! j)"
    proof (intro allI impI)
      fix j assume "j < c - c0"
      then show "\<not> P ((x # xs) ! j)" using False ih(4) e by (cases j) auto
    qed
    then show ?thesis using ih e by simp
  qed
qed

lemma firstColumn_None: "firstColumn P row c0 = None \<Longrightarrow> \<forall>x \<in> set row. \<not> P x"
  by (induction row arbitrary: c0) (auto split: if_splits)

lemma firstHit_Some:
  "firstHit P g r0 = Some (r, c) \<Longrightarrow>
   r0 \<le> r \<and> r - r0 < length g \<and> firstColumn P (g ! (r - r0)) 1 = Some c \<and>
   (\<forall>k < r - r0. \<forall>x \<in> set (g ! k). \<not> P x)"
proof (induction g arbitrary: r0)
  case Nil
  then show ?case by simp
next
  case (Cons row rows)
  show ?case
  proof (cases "firstColumn P row 1")
    case (Some c1)
    then show ?thesis using Cons.prems by simp
  next
    case None
    then have "firstHit P rows (Suc r0) = Some (r, c)" using Cons.prems by simp
    from Cons.IH[OF this] have ih: "Suc r0 \<le> r" "r - Suc r0 < length rows"
      "firstColumn P (rows ! (r - Suc r0)) 1 = Some c"
      "\<forall>k < r - Suc r0. \<forall>x \<in> set (rows ! k). \<not> P x" by simp_all
    have e: "r - r0 = Suc (r - Suc r0)" using ih(1) by simp
    have "\<forall>k < r - r0. \<forall>x \<in> set ((row # rows) ! k). \<not> P x"
    proof (intro allI impI)
      fix k assume "k < r - r0"
      then show "\<forall>x \<in> set ((row # rows) ! k). \<not> P x"
        using firstColumn_None[OF None] ih(4) e by (cases k) auto
    qed
    then show ?thesis using ih e by simp
  qed
qed

lemma findNext_first:
  assumes "findNext pf sheet ident = Some (r, c)" and "ident \<noteq> []"
  shows "1 \<le> r \<and> 1 \<le> c \<and> cellMatches pf ident (cellAt (grid sheet) r c) \<and>
         (\<forall>r' c'. r' < r \<or> (r' = r \<and> c' < c) \<longrightarrow> \<not> cellMatches pf ident (cellAt (grid sheet) r' c'))"
proof -
  let ?P = "cellMatches pf ident"
  let ?g = "grid sheet"
  from assms(1) have h: "firstHit ?P ?g 1 = Some (r, c)" by (simp add: findNext_def)
  from firstHit_Some[OF h] have r: "1 \<le> r" "r - 1 < length ?g"
    and fc: "firstColumn ?P (?g ! (r - 1)) 1 = Some c"
    and before: "\<forall>k < r - 1. \<forall>x \<in> set (?g ! k). \<not> ?P x" by simp_all
  from firstColumn_Some[OF fc] have c: "1 \<le> c" "c - 1 < length (?g ! (r - 1))"
    and hit: "?P (?g ! (r - 1) ! (c - 1))"
    and left: "\<forall>j < c - 1. \<not> ?P (?g ! (r - 1) ! j)" by simp_all
  have empty: "\<not> ?P emptyCell"
    using assms(2) by (simp add: cellMatches_def emptyCell_def cellText_def)
  have here: "cellAt ?g r c = ?g ! (r - 1) ! (c - 1)"
    using r c by (auto simp add: cellAt_def)
  have "\<not> ?P (cellAt ?g r' c')" if "r' < r \<or> (r' = r \<and> c' < c)" for r' c'
  proof (cases "1 \<le> r' \<and> r' \<le> length ?g \<and> 1 \<le> c' \<and> c' \<le> length (?g ! (r' - 1))")
    case False
    then have "cellAt ?g r' c' = emptyCell" by (auto simp add: cellAt_def)
    then show ?thesis using empty by simp
  next
    case True
    then have at: "cellAt ?g r' c' = ?g ! (r' - 1) ! (c' - 1)" by (auto simp add: cellAt_def)
    from that show ?thesis
    proof
      assume "r' < r"
      then have "r' - 1 < r - 1" using True by linarith
      moreover have "c' - 1 < length (?g ! (r' - 1))" using True by linarith
      then have "?g ! (r' - 1) ! (c' - 1) \<in> set (?g ! (r' - 1))" by (rule nth_mem)
      ultimately show ?thesis using before at by auto
    next
      assume "r' = r \<and> c' < c"
      then have "c' - 1 < c - 1" "r' = r" using True by linarith+
      then show ?thesis using left at by auto
    qed
  qed
  then show ?thesis using r(1) c(1) hit here by simp
qed

lemma containsText_refl: "containsText xs xs"
  by (cases xs) simp_all

lemma cellMatches_own_text: "cellMatches pf ident (Str ident)"
  by (simp add: cellMatches_def cellText_def containsText_refl)

lemma findNext_is_first_id_cell:
  assumes "findNext pf sheet ident = Some (r, c)" and "ident \<noteq> []"
    and "cellAt (grid sheet) r0 c0 = Str ident"
    and "\<forall>r' c'. r' < r0 \<or> (r' = r0 \<and> c' < c0) \<longrightarrow> \<not> cellMatches pf ident (cellAt (grid sheet) r' c')"
  shows "r = r0 \<and> c = c0"
proof -
  from findNext_first[OF assms(1,2)] have hit: "cellMatches pf ident (cellAt (grid sheet) r c)"
    and first: "\<forall>r' c'. r' < r \<or> (r' = r \<and> c' < c) \<longrightarrow> \<not> cellMatches pf ident (cellAt (grid sheet) r' c')"
    by simp_all
  have own: "cellMatches pf ident (cellAt (grid sheet) r0 c0)"
    unfolding assms(3) by (rule cellMatches_own_text)
  have a: "\<not> (r0 < r \<or> (r0 = r \<and> c0 < c))" using first own by blast
  have b: "\<not> (r < r0 \<or> (r = r0 \<and> c < c0))" using assms(4) hit by blast
  from a b show ?thesis by linarith
qed

lemma findNext_pos: "findNext pf sheet ident = Some (r, c) \<Longrightarrow> 1 \<le> r"
  using firstHit_Some[of "cellMatches pf ident" "grid sheet" 1 r c] by (simp add: findNext_def)

subsection \<open>\<^verbatim>\<open>indexOf\<close>\<close>

lemma indexOf_ge: "- 1 \<le> indexOf xs x"
  by (induction xs) (auto simp add: Let_def)

lemma indexOf_mem:
  "x \<in> set xs \<Longrightarrow> 0 \<le> indexOf xs x \<and> nat (indexOf xs x) < length xs \<and> xs ! nat (indexOf xs x) = x
     \<and> (\<forall>j < nat (indexOf xs x). xs ! j \<noteq> x)"
proof (induction xs)
  case Nil
  then show ?case by simp
next
  case (Cons y ys)
  show ?case
  proof (cases "y = x")
    case True
    then show ?thesis by simp
  next
    case False
    then have "x \<in> set ys" using Cons.prems by simp
    from Cons.IH[OF this] have ih: "0 \<le> indexOf ys x" "nat (indexOf ys x) < length ys"
      "ys ! nat (indexOf ys x) = x" "\<forall>j < nat (indexOf ys x). ys ! j \<noteq> x" by simp_all
    have i: "indexOf (y # ys) x = indexOf ys x + 1" using False ih(1) by (simp add: Let_def)
    have n: "nat (indexOf ys x + 1) = Suc (nat (indexOf ys x))" using ih(1) by simp
    have "\<forall>j < Suc (nat (indexOf ys x)). (y # ys) ! j \<noteq> x"
    proof (intro allI impI)
      fix j assume "j < Suc (nat (indexOf ys x))"
      then show "(y # ys) ! j \<noteq> x" using False ih(4) by (cases j) auto
    qed
    then show ?thesis unfolding i n using ih by simp
  qed
qed

lemma sheetIndex_Some:
  "sheetIndex book name = Some i \<Longrightarrow>
   i < length book \<and> sheetName (book ! i) = name \<and> (\<forall>j < i. sheetName (book ! j) \<noteq> name)"
proof (induction book arbitrary: i)
  case Nil
  then show ?case by simp
next
  case (Cons s ss)
  show ?case
  proof (cases "sheetName s = name")
    case True
    then show ?thesis using Cons.prems by simp
  next
    case False
    then obtain k where k: "sheetIndex ss name = Some k" "i = Suc k" using Cons.prems by auto
    from Cons.IH[OF k(1)] have ih: "k < length ss" "sheetName (ss ! k) = name"
      "\<forall>j < k. sheetName (ss ! j) \<noteq> name" by simp_all
    have "\<forall>j < Suc k. sheetName ((s # ss) ! j) \<noteq> name"
    proof (intro allI impI)
      fix j assume "j < Suc k"
      then show "sheetName ((s # ss) ! j) \<noteq> name" using False ih(3) by (cases j) auto
    qed
    then show ?thesis using ih k(2) by simp
  qed
qed

lemma sheetIndex_None: "sheetIndex book name = None \<Longrightarrow> name \<notin> set (map sheetName book)"
  by (induction book) (auto split: if_splits)

lemma sheetIndex_first:
  "i < length book \<Longrightarrow> sheetName (book ! i) = name \<Longrightarrow> \<forall>j < i. sheetName (book ! j) \<noteq> name \<Longrightarrow>
   sheetIndex book name = Some i"
proof (induction book arbitrary: i)
  case Nil
  then show ?case by simp
next
  case (Cons s ss)
  show ?case
  proof (cases i)
    case 0
    then show ?thesis using Cons.prems by simp
  next
    case (Suc k)
    have s: "sheetName s \<noteq> name" using Cons.prems(3) Suc by auto
    have "\<forall>j < k. sheetName (ss ! j) \<noteq> name"
    proof (intro allI impI)
      fix j assume "j < k"
      then have "Suc j < i" using Suc by simp
      then have "sheetName ((s # ss) ! Suc j) \<noteq> name" using Cons.prems(3) by blast
      then show "sheetName (ss ! j) \<noteq> name" by simp
    qed
    then have "sheetIndex ss name = Some k" using Cons.IH[of k] Cons.prems(1,2) Suc by simp
    then show ?thesis using s Suc by simp
  qed
qed

lemma exampleSheet_update:
  "updateLabel examplePlatform exampleConfig ''doc-3-2'' ''body'' [exampleSheet] =
     Inr [\<lparr>sheetName = ''abcd'',
           grid = [[Str ''id'', Str ''text'', Str ''area'', Str ''label''],
                   [Str ''doc-3-1'', Str ''hello'', Num 50, Str ''other''],
                   [Str ''malformed_id'', Str ''what'', Num 70, Str ''other''],
                   [Str ''doc-3-2'', Str ''world'', Num 200, Str ''body''],
                   [Str ''doc-4-1'', Str ''again'', Num 10, Str ''other'']],
           backgrounds = [((4, 4), ''wheat'')]\<rparr>]"
  by code_simp

section \<open>Renaming and filling sheets: lemmas\<close>

lemma overlay_fresh: "overlay ds (replicate (length ds) []) = ds"
  by (induction ds) simp_all

lemma setName_last:
  "setName (length book1) name (book1 @ [s]) =
     (if name \<in> set (map sheetName book1) then Inl ServiceException
      else Inr (book1 @ [s\<lparr>sheetName := name\<rparr>]))"
  by (simp add: setName_def changeSheet_def)

lemma changeSheet_last: "changeSheet (length book1) f (book1 @ [s]) = book1 @ [f s]"
  by (simp add: changeSheet_def)

lemma syncSheet_tail:
  assumes "(case sheetIndex book (pdfId cfg) of
              None \<Rightarrow> Inr book
            | Some oldSheet \<Rightarrow>
                setName oldSheet (sheetName (book ! oldSheet) @ ''.old.'' @ now) book) = Inr book1"
  shows "syncSheet pf cfg now labelData book =
     (if pdfId cfg \<in> set (map sheetName book1) then Inl (ServiceException, insertSheet book1)
      else if labelData = []
      then Inl (TypeError, book1 @ [\<lparr>sheetName = pdfId cfg, grid = [], backgrounds = []\<rparr>])
      else if length (hd labelData) < 1 \<or> list_ex (\<lambda>row. length row \<noteq> length (hd labelData)) labelData
      then Inl (ServiceException,
                book1 @ [\<lparr>sheetName = pdfId cfg, grid = replicate (length labelData) [], backgrounds = []\<rparr>])
      else Inr (book1 @ [\<lparr>sheetName = pdfId cfg, grid = map (map (enterValue pf)) labelData,
                          backgrounds = []\<rparr>]))"
proof (cases "pdfId cfg \<in> set (map sheetName book1)")
  case True
  then show ?thesis
    unfolding syncSheet_def assms by (simp add: Let_def insertSheet_def setName_last)
next
  case False
  have two: "setName (length book1) (pdfId cfg) (insertSheet book1) =
      Inr (book1 @ [\<lparr>sheetName = pdfId cfg, grid = [], backgrounds = []\<rparr>])"
    using False by (simp add: insertSheet_def setName_last)
  have rows: "changeSheet (length book1) (insertRows n)
        (book1 @ [\<lparr>sheetName = pdfId cfg, grid = [], backgrounds = []\<rparr>]) =
      book1 @ [\<lparr>sheetName = pdfId cfg, grid = replicate n [], backgrounds = []\<rparr>]" for n
    by (simp add: changeSheet_last insertRows_def)
  have fill: "changeSheet (length book1)
        (\<lambda>s. s\<lparr>grid := overlay (map (map (enterValue pf)) labelData) (grid s)\<rparr>)
        (book1 @ [\<lparr>sheetName = pdfId cfg, grid = replicate (length labelData) [], backgrounds = []\<rparr>]) =
      book1 @ [\<lparr>sheetName = pdfId cfg, grid = map (map (enterValue pf)) labelData, backgrounds = []\<rparr>]"
    using overlay_fresh[of "map (map (enterValue pf)) labelData"]
    by (simp add: changeSheet_last)
  show ?thesis
  proof (cases labelData)
    case Nil
    then show ?thesis
      unfolding syncSheet_def assms using False two rows[of 0] by (simp add: Let_def)
  next
    case (Cons header rest)
    have r: "changeSheet (length book1) (insertRows (length labelData))
        (book1 @ [\<lparr>sheetName = pdfId cfg, grid = [], backgrounds = []\<rparr>]) =
      book1 @ [\<lparr>sheetName = pdfId cfg, grid = replicate (length labelData) [], backgrounds = []\<rparr>]"
      by (rule rows)
    show ?thesis
      unfolding syncSheet_def assms Let_def two sum.case r fill
      using False Cons by simp
  qed
qed

lemma renamed_names:
  assumes "sheetIndex book name = Some i" "distinct (map sheetName book)" "other \<noteq> name"
  shows "name \<notin> set (map sheetName (book[i := (book ! i)\<lparr>sheetName := other\<rparr>]))"
proof
  let ?b = "book[i := (book ! i)\<lparr>sheetName := other\<rparr>]"
  assume "name \<in> set (map sheetName ?b)"
  then obtain j where j: "j < length ?b" "sheetName (?b ! j) = name"
    by (auto simp add: in_set_conv_nth)
  from sheetIndex_Some[OF assms(1)] have i: "i < length book" "sheetName (book ! i) = name" by simp_all
  show False
  proof (cases "j = i")
    case True
    then show ?thesis using j i assms(3) by simp
  next
    case False
    then have "sheetName (book ! j) = name" using j by simp
    then have e: "map sheetName book ! j = map sheetName book ! i" using i j by simp
    have "j < length (map sheetName book)" "i < length (map sheetName book)" using i j by simp_all
    then have "j = i" using assms(2) e nth_eq_iff_index_eq by blast
    then show ?thesis using False by simp
  qed
qed

lemma archive_ok:
  assumes "sheetIndex book (pdfId cfg) = Some i"
    and "pdfId cfg @ ''.old.'' @ now \<notin> set (map sheetName book)"
  shows "(case sheetIndex book (pdfId cfg) of
              None \<Rightarrow> Inr book
            | Some oldSheet \<Rightarrow>
                setName oldSheet (sheetName (book ! oldSheet) @ ''.old.'' @ now) book) =
         Inr (book[i := (book ! i)\<lparr>sheetName := pdfId cfg @ ''.old.'' @ now\<rparr>])"
proof -
  from sheetIndex_Some[OF assms(1)] have n: "sheetName (book ! i) = pdfId cfg" by simp
  have "set (map sheetName (take i book @ drop (Suc i) book)) \<subseteq> set (map sheetName book)"
    using set_take_subset[of i book] set_drop_subset[of "Suc i" book] by auto
  then have "pdfId cfg @ ''.old.'' @ now \<notin> set (map sheetName (take i book @ drop (Suc i) book))"
    using assms(2) by blast
  then show ?thesis using assms(1) n by (simp add: setName_def changeSheet_def)
qed

lemma setName_keeps:
  "setName i name book = Inr book1 \<Longrightarrow>
   length book1 = length book \<and>
   (\<forall>j < length book. grid (book1 ! j) = grid (book ! j) \<and> backgrounds (book1 ! j) = backgrounds (book ! j))"
proof -
  assume "setName i name book = Inr book1"
  then have b: "book1 = book[i := (book ! i)\<lparr>sheetName := name\<rparr>]"
    by (auto simp add: setName_def changeSheet_def split: if_splits)
  have "grid (book1 ! j) = grid (book ! j) \<and> backgrounds (book1 ! j) = backgrounds (book ! j)"
    if "j < length book" for j
    using that unfolding b by (cases "j = i") simp_all
  then show ?thesis using b by simp
qed

lemma archive_keeps:
  assumes "(case sheetIndex book (pdfId cfg) of
              None \<Rightarrow> Inr book
            | Some oldSheet \<Rightarrow>
                setName oldSheet (sheetName (book ! oldSheet) @ ''.old.'' @ now) book) = Inr book1"
  shows "length book1 = length book \<and>
   (\<forall>j < length book. grid (book1 ! j) = grid (book ! j) \<and> backgrounds (book1 ! j) = backgrounds (book ! j))"
proof (cases "sheetIndex book (pdfId cfg)")
  case None
  then show ?thesis using assms by simp
next
  case (Some i)
  then show ?thesis using assms setName_keeps by auto
qed

lemma syncSheet_keeps_sheets:
  "\<forall>j < length book.
      j < length (bookAfter (syncSheet pf cfg now labelData book)) \<and>
      grid (bookAfter (syncSheet pf cfg now labelData book) ! j) = grid (book ! j) \<and>
      backgrounds (bookAfter (syncSheet pf cfg now labelData book) ! j) = backgrounds (book ! j)"
proof (cases "case sheetIndex book (pdfId cfg) of
              None \<Rightarrow> Inr book
            | Some oldSheet \<Rightarrow>
                setName oldSheet (sheetName (book ! oldSheet) @ ''.old.'' @ now) book")
  case (Inl e)
  then have "syncSheet pf cfg now labelData book = Inl (e, book)"
    by (simp add: syncSheet_def)
  then show ?thesis by (simp add: bookAfter_def)
next
  case (Inr book1)
  from archive_keeps[OF Inr] have k: "length book1 = length book"
    "\<forall>j < length book. grid (book1 ! j) = grid (book ! j) \<and> backgrounds (book1 ! j) = backgrounds (book ! j)"
    by simp_all
  have "\<exists>s. bookAfter (syncSheet pf cfg now labelData book) = book1 @ [s]"
    unfolding syncSheet_tail[OF Inr] by (simp add: bookAfter_def insertSheet_def)
  then obtain s where "bookAfter (syncSheet pf cfg now labelData book) = book1 @ [s]" by blast
  then show ?thesis using k by (simp add: nth_append)
qed

lemma name_mem: "s \<in> set book \<Longrightarrow> sheetName s \<in> set (map sheetName book)"
  by simp

lemma exampleSheet_sync:
  "syncSheet examplePlatform exampleConfig ''10:00:01'' [[''id'', ''label''], [''doc-1-1'', ''body'']]
     [exampleSheet, archivedSheet] =
   Inr [exampleSheet\<lparr>sheetName := ''abcd.old.10:00:01''\<rparr>, archivedSheet,
        \<lparr>sheetName = ''abcd'', grid = [[Str ''id'', Str ''label''], [Str ''doc-1-1'', Str ''body'']],
         backgrounds = []\<rparr>]"
  by code_simp

lemma syncSheet_no_rows: "\<exists>e b. syncSheet pf cfg now [] book = Inl (e, b)"
proof (cases "case sheetIndex book (pdfId cfg) of
              None \<Rightarrow> Inr book
            | Some oldSheet \<Rightarrow>
                setName oldSheet (sheetName (book ! oldSheet) @ ''.old.'' @ now) book")
  case (Inl e)
  then have "syncSheet pf cfg now [] book = Inl (e, book)" by (simp add: syncSheet_def)
  then show ?thesis by blast
next
  case (Inr book1)
  show ?thesis unfolding syncSheet_tail[OF Inr] by simp
qed

lemma usedWidth_gt: "k < length row \<Longrightarrow> row ! k \<noteq> emptyCell \<Longrightarrow> k < usedWidth row"
proof (induction row rule: rev_induct)
  case Nil
  then show ?case by simp
next
  case (snoc x xs)
  show ?case
  proof (cases "x = emptyCell")
    case True
    then have w: "usedWidth (xs @ [x]) = usedWidth xs" by (simp add: usedWidth_def)
    have "k \<noteq> length xs" using snoc.prems(2) True by auto
    then have k: "k < length xs" using snoc.prems(1) by simp
    then have "xs ! k \<noteq> emptyCell" using snoc.prems(2) by (simp add: nth_append)
    then show ?thesis using snoc.IH k w by simp
  next
    case False
    then have "usedWidth (xs @ [x]) = length (xs @ [x])" by (simp add: usedWidth_def)
    then show ?thesis using snoc.prems(1) by simp
  qed
qed

lemma getLastColumn_ge: "row \<in> set g \<Longrightarrow> usedWidth row \<le> getLastColumn g"
proof (induction g)
  case Nil
  then show ?case by simp
next
  case (Cons r g)
  have e: "getLastColumn (r # g) = max (usedWidth r) (getLastColumn g)"
    by (simp add: getLastColumn_def)
  from Cons.prems consider "row = r" | "row \<in> set g" by auto
  then show ?case
  proof cases
    case 1
    then show ?thesis unfolding e by simp
  next
    case 2
    then have "usedWidth row \<le> getLastColumn g" by (rule Cons.IH)
    then show ?thesis unfolding e by simp
  qed
qed

lemma header_contains:
  assumes "g \<noteq> []" "x \<in> set (g ! 0)" "x \<noteq> emptyCell"
  shows "\<exists>hs. getValues g 1 1 1 (getLastColumn g) = Inr hs \<and> x \<in> set (hs ! 0)"
proof -
  from assms(2) obtain k where k: "k < length (g ! 0)" "g ! 0 ! k = x"
    by (auto simp add: in_set_conv_nth)
  have "k < usedWidth (g ! 0)" using k assms(3) by (intro usedWidth_gt) simp_all
  moreover have "g ! 0 \<in> set g" using assms(1) by (intro nth_mem) simp
  then have "usedWidth (g ! 0) \<le> getLastColumn g" by (rule getLastColumn_ge)
  ultimately have lc: "k < getLastColumn g" by simp
  let ?hs = "[map (\<lambda>j. cellAt g 1 j) [1..<1 + getLastColumn g]]"
  have v: "getValues g 1 1 1 (getLastColumn g) = Inr ?hs"
    using lc by (simp add: getValues_def)
  have "1 \<le> length g" using assms(1) by (cases g) simp_all
  then have c: "cellAt g 1 (Suc k) = x"
    using k by (simp add: cellAt_def)
  have "Suc k \<in> set [1..<1 + getLastColumn g]" unfolding set_upt using lc by simp
  then have "cellAt g 1 (Suc k) \<in> set (map (\<lambda>j. cellAt g 1 j) [1..<1 + getLastColumn g])"
    unfolding set_map by (rule imageI)
  then have "x \<in> set (?hs ! 0)" using c by simp
  then show ?thesis using v by blast
qed

lemma mapRows_Cons:
  "mapRows f (x # xs) = Inr rows \<Longrightarrow> \<exists>y ys. f x = Inr y \<and> rows = y # ys"
  by (auto split: sum.splits)

lemma reconcileLabels_has_label:
  assumes "reconcileLabels labelData = Inr rows"
  shows "rows \<noteq> [] \<and> ''label'' \<in> set (rows ! 0)"
proof (cases labelData)
  case Nil
  then show ?thesis using assms by (simp add: reconcileLabels_def)
next
  case (Cons header rest)
  show ?thesis
  proof (cases "''label'' \<in> set header")
    case True
    then have "rows = header # rest" using assms Cons by (simp add: reconcileLabels_def)
    then show ?thesis using True by simp
  next
    case False
    then obtain pushed where p: "mapRows pushDefault (header # rest) = Inr pushed"
      and r: "rows = pushed[0 := (pushed ! 0)[length (pushed ! 0) - 1 := ''label'']]"
      using assms Cons by (auto simp add: reconcileLabels_def split: sum.splits)
    from mapRows_Cons[OF p] obtain y ys where y: "pushDefault header = Inr y" "pushed = y # ys"
      by blast
    have "y \<noteq> []" using y(1) by (auto simp add: pushDefault_def split: if_splits)
    then have "length y - 1 < length y" by (cases y) simp_all
    then have "''label'' \<in> set (y[length y - 1 := ''label''])" by (rule set_update_memI)
    then show ?thesis unfolding r y(2) by simp
  qed
qed

lemma syncSheet_Inr:
  assumes "syncSheet pf cfg now labelData book = Inr book'"
  shows "\<exists>book1. pdfId cfg \<notin> set (map sheetName book1) \<and> labelData \<noteq> [] \<and>
           book' = book1 @ [\<lparr>sheetName = pdfId cfg, grid = map (map (enterValue pf)) labelData,
                             backgrounds = []\<rparr>]"
proof (cases "case sheetIndex book (pdfId cfg) of
              None \<Rightarrow> Inr book
            | Some oldSheet \<Rightarrow>
                setName oldSheet (sheetName (book ! oldSheet) @ ''.old.'' @ now) book")
  case (Inl e)
  then have "syncSheet pf cfg now labelData book = Inl (e, book)" by (simp add: syncSheet_def)
  then show ?thesis using assms by simp
next
  case (Inr book1)
  from assms show ?thesis
    unfolding syncSheet_tail[OF Inr] by (auto split: if_splits)
qed

lemma example_download:
  "downloadLabels_gs 3 examplePlatform exampleStore exampleConfig ''10:00:01'' [exampleSheet, archivedSheet] =
     Some (Inr [exampleSheet\<lparr>sheetName := ''abcd.old.10:00:01''\<rparr>, archivedSheet,
                \<lparr>sheetName = ''abcd'',
                 grid = [[Str ''id'', Str ''text'', Str ''area'', Str ''label''],
                         [Str ''doc-3-1'', Str ''hello'', Num 50, Str ''other''],
                         [Str ''doc-3-2'', Str ''world'', Num 200, Str ''other''],
                         [Str ''doc-4-1'', Str ''again'', Num 10, Str ''other'']],
                 backgrounds = []\<rparr>])"
  by code_simp

section \<open>The claims about the download loop\<close>

text \<open>
  Claim C2. The loop asks for the batches 1, 101, 201, ... in this order. When batch
  \<open>1 + 100 * m\<close> is the first for which no file answers 200, the loop ends there, given
  fuel for \<open>m + 1\<close> iterations: the requests are those of the batches up to this one and
  no other, and the text is the bodies of the batches before it, in their order. In
  \<^verbatim>\<open>do_get.gs\<close> a batch is its labels file or else its features file; in \<^verbatim>\<open>do_get.js\<close>
  it is the labels file, the only one fetched.
\<close>

theorem download_stops_at_first_missing_batch:
  "((\<forall>k<m. batchPresent store cfg (1 + 100 * k)) \<and> \<not> batchPresent store cfg (1 + 100 * m) \<and> m < fuel
      \<longrightarrow> downloadLoop_gs fuel store cfg 1 [] [] =
            (Some (concat (map (\<lambda>k. batchBody store cfg (1 + 100 * k)) [0..<m])),
             concat (map (\<lambda>k. batchRequests cfg (1 + 100 * k)) [0..<Suc m])))
   \<and> ((\<forall>k<m. responseCode (store (urlLabel cfg (1 + 100 * k))) = 200)
        \<and> responseCode (store (urlLabel cfg (1 + 100 * m))) \<noteq> 200 \<and> m < fuel
      \<longrightarrow> downloadLoop_js fuel store cfg 1 [] [] =
            (Some (concat (map (\<lambda>k. contentText (store (urlLabel cfg (1 + 100 * k)))) [0..<m])),
             map (\<lambda>k. urlLabel cfg (1 + 100 * k)) [0..<Suc m]))"
proof (intro conjI impI)
  assume "(\<forall>k<m. batchPresent store cfg (1 + 100 * k)) \<and> \<not> batchPresent store cfg (1 + 100 * m) \<and> m < fuel"
  then show "downloadLoop_gs fuel store cfg 1 [] [] =
            (Some (concat (map (\<lambda>k. batchBody store cfg (1 + 100 * k)) [0..<m])),
             concat (map (\<lambda>k. batchRequests cfg (1 + 100 * k)) [0..<Suc m]))"
    using downloadLoop_gs_run[of m store cfg 1 fuel "[]" "[]"] by simp
next
  assume "(\<forall>k<m. responseCode (store (urlLabel cfg (1 + 100 * k))) = 200)
        \<and> responseCode (store (urlLabel cfg (1 + 100 * m))) \<noteq> 200 \<and> m < fuel"
  then show "downloadLoop_js fuel store cfg 1 [] [] =
            (Some (concat (map (\<lambda>k. contentText (store (urlLabel cfg (1 + 100 * k)))) [0..<m])),
             map (\<lambda>k. urlLabel cfg (1 + 100 * k)) [0..<Suc m])"
    using downloadLoop_js_run[of m store cfg 1 fuel "[]" "[]"] by simp
qed

text \<open>
  With batches at 1 and 101 and none at 201 the text is the body of batch 1 followed by
  the body of batch 101. (\<^verbatim>\<open>do_get.js\<close> stops at batch 1 here, whose labels file is
  missing.)
\<close>

theorem download_stops_at_first_missing_batch_witness:
  "downloadLoop_gs 3 exampleStore exampleConfig 1 [] [] =
     (Some (batch1 @ batch101),
      [''https://storage.googleapis.com/bucket/abcd-001-features.csv'',
       ''https://storage.googleapis.com/bucket/abcd-001-labels.csv'',
       ''https://storage.googleapis.com/bucket/abcd-101-features.csv'',
       ''https://storage.googleapis.com/bucket/abcd-101-labels.csv'',
       ''https://storage.googleapis.com/bucket/abcd-201-features.csv'',
       ''https://storage.googleapis.com/bucket/abcd-201-labels.csv''])
   \<and> downloadLoop_js 3 exampleStore exampleConfig 1 [] [] =
     (Some [], [''https://storage.googleapis.com/bucket/abcd-001-labels.csv''])"
proof -
  have p0: "batchPresent exampleStore exampleConfig (1 + 100 * 0)"
    and p1: "batchPresent exampleStore exampleConfig (1 + 100 * 1)"
    and p2: "\<not> batchPresent exampleStore exampleConfig (1 + 100 * 2)"
    and q0: "responseCode (exampleStore (urlLabel exampleConfig (1 + 100 * 0))) \<noteq> 200"
    by code_simp+
  have "batchPresent exampleStore exampleConfig (1 + 100 * k)" if "k < 2" for k
  proof -
    from that consider "k = 0" | "k = 1" by linarith
    then show ?thesis
    proof cases
      case 1 then show ?thesis using p0 by (simp only:)
    next
      case 2 then show ?thesis using p1 by (simp only:)
    qed
  qed
  then have gs: "(\<forall>k<2. batchPresent exampleStore exampleConfig (1 + 100 * k))
      \<and> \<not> batchPresent exampleStore exampleConfig (1 + 100 * 2) \<and> (2::nat) < 3"
    using p2 by simp
  have js: "(\<forall>k<0. responseCode (exampleStore (urlLabel exampleConfig (1 + 100 * k))) = 200)
      \<and> responseCode (exampleStore (urlLabel exampleConfig (1 + 100 * 0))) \<noteq> 200 \<and> (0::nat) < 3"
    using q0 by simp
  have v1: "(Some (concat (map (\<lambda>k. batchBody exampleStore exampleConfig (1 + 100 * k)) [0..<2])),
             concat (map (\<lambda>k. batchRequests exampleConfig (1 + 100 * k)) [0..<Suc 2])) =
     (Some (batch1 @ batch101),
      [''https://storage.googleapis.com/bucket/abcd-001-features.csv'',
       ''https://storage.googleapis.com/bucket/abcd-001-labels.csv'',
       ''https://storage.googleapis.com/bucket/abcd-101-features.csv'',
       ''https://storage.googleapis.com/bucket/abcd-101-labels.csv'',
       ''https://storage.googleapis.com/bucket/abcd-201-features.csv'',
       ''https://storage.googleapis.com/bucket/abcd-201-labels.csv''])"
    by code_simp
  have v2: "(Some (concat (map (\<lambda>k. contentText (exampleStore (urlLabel exampleConfig (1 + 100 * k)))) [0..<0])),
             map (\<lambda>k. urlLabel exampleConfig (1 + 100 * k)) [0..<Suc 0]) =
     (Some [], [''https://storage.googleapis.com/bucket/abcd-001-labels.csv''])"
    by code_simp
  from download_stops_at_first_missing_batch[of 2 exampleStore exampleConfig 3] gs
  have one: "downloadLoop_gs 3 exampleStore exampleConfig 1 [] [] =
            (Some (concat (map (\<lambda>k. batchBody exampleStore exampleConfig (1 + 100 * k)) [0..<2])),
             concat (map (\<lambda>k. batchRequests exampleConfig (1 + 100 * k)) [0..<Suc 2]))"
    by blast
  from download_stops_at_first_missing_batch[of 0 exampleStore exampleConfig 3] js
  have two: "downloadLoop_js 3 exampleStore exampleConfig 1 [] [] =
            (Some (concat (map (\<lambda>k. contentText (exampleStore (urlLabel exampleConfig (1 + 100 * k)))) [0..<0])),
             map (\<lambda>k. urlLabel exampleConfig (1 + 100 * k)) [0..<Suc 0])"
    by blast
  show ?thesis
    unfolding one two v1 v2 by simp
qed

text \<open>
  Claim C9. The suffix is the last three characters of \<^verbatim>\<open>"000" + i\<close>, so it is the same
  for \<open>i\<close> and \<open>i + 1000\<close>, and batch 1001 asks for the URLs of batch 1. Whatever the
  fuel, every URL the loop has requested carries one of the ten suffixes 001, 101, ...,
  901. When the store answers 200 for a file of each of the ten, the loop does not end:
  no amount of fuel lets it return.
\<close>

theorem suffix_wraps_after_1000:
  "batchSuffix i = sliceLast3 (''000'' @ natToString i)
   \<and> batchSuffix (i + 1000) = batchSuffix i
   \<and> batchRequests cfg 1001 = batchRequests cfg 1
   \<and> (\<forall>u \<in> set (snd (downloadLoop_gs fuel store cfg 1 [] [])).
         \<exists>s \<in> set loopSuffixes. u = featuresFile cfg s \<or> u = labelsFile cfg s)
   \<and> (\<forall>u \<in> set (snd (downloadLoop_js fuel store cfg 1 [] [])).
         \<exists>s \<in> set loopSuffixes. u = labelsFile cfg s)
   \<and> ((\<forall>s \<in> set loopSuffixes. responseCode (store (labelsFile cfg s)) = 200
                                \<or> responseCode (store (featuresFile cfg s)) = 200)
        \<longrightarrow> fst (downloadLoop_gs fuel store cfg 1 [] []) = None)
   \<and> ((\<forall>s \<in> set loopSuffixes. responseCode (store (labelsFile cfg s)) = 200)
        \<longrightarrow> fst (downloadLoop_js fuel store cfg 1 [] []) = None)"
proof (intro conjI)
  show "batchSuffix i = sliceLast3 (''000'' @ natToString i)"
    by (simp add: batchSuffix_def)
  show "batchSuffix (i + 1000) = batchSuffix i"
    by (rule batchSuffix_period)
  show "batchRequests cfg 1001 = batchRequests cfg 1"
    using urls_period[of cfg 1] by (simp add: batchRequests_def)
  show "\<forall>u \<in> set (snd (downloadLoop_gs fuel store cfg 1 [] [])).
         \<exists>s \<in> set loopSuffixes. u = featuresFile cfg s \<or> u = labelsFile cfg s"
  proof
    fix u assume u: "u \<in> set (snd (downloadLoop_gs fuel store cfg 1 [] []))"
    from downloadLoop_gs_requests[of fuel store cfg 1 "[]" "[]"]
    obtain n where "snd (downloadLoop_gs fuel store cfg 1 [] []) =
        concat (map (\<lambda>k. batchRequests cfg (1 + 100 * k)) [0..<n])" by auto
    with u obtain k where "u \<in> set (batchRequests cfg (1 + 100 * k))" by auto
    then have "u = featuresFile cfg (batchSuffix (1 + 100 * k)) \<or> u = labelsFile cfg (batchSuffix (1 + 100 * k))"
      by (auto simp add: batchRequests_def urlLabel_file urlFeature_file)
    then show "\<exists>s \<in> set loopSuffixes. u = featuresFile cfg s \<or> u = labelsFile cfg s"
      using batchSuffix_in_loopSuffixes[of k] by blast
  qed
  show "\<forall>u \<in> set (snd (downloadLoop_js fuel store cfg 1 [] [])).
         \<exists>s \<in> set loopSuffixes. u = labelsFile cfg s"
  proof
    fix u assume u: "u \<in> set (snd (downloadLoop_js fuel store cfg 1 [] []))"
    from downloadLoop_js_requests[of fuel store cfg 1 "[]" "[]"]
    obtain n where "snd (downloadLoop_js fuel store cfg 1 [] []) =
        map (\<lambda>k. urlLabel cfg (1 + 100 * k)) [0..<n]" by auto
    with u obtain k where "u = urlLabel cfg (1 + 100 * k)" by auto
    then have "u = labelsFile cfg (batchSuffix (1 + 100 * k))"
      by (simp add: urlLabel_file)
    then show "\<exists>s \<in> set loopSuffixes. u = labelsFile cfg s"
      using batchSuffix_in_loopSuffixes[of k] by blast
  qed
  show "(\<forall>s \<in> set loopSuffixes. responseCode (store (labelsFile cfg s)) = 200
                                \<or> responseCode (store (featuresFile cfg s)) = 200)
        \<longrightarrow> fst (downloadLoop_gs fuel store cfg 1 [] []) = None"
  proof
    assume all: "\<forall>s \<in> set loopSuffixes. responseCode (store (labelsFile cfg s)) = 200
                                \<or> responseCode (store (featuresFile cfg s)) = 200"
    have "batchPresent store cfg (1 + 100 * k)" for k
      using all batchSuffix_in_loopSuffixes[of k]
      by (simp add: batchPresent_def urlLabel_file urlFeature_file)
    then show "fst (downloadLoop_gs fuel store cfg 1 [] []) = None"
      by (rule downloadLoop_gs_forever)
  qed
  show "(\<forall>s \<in> set loopSuffixes. responseCode (store (labelsFile cfg s)) = 200)
        \<longrightarrow> fst (downloadLoop_js fuel store cfg 1 [] []) = None"
  proof
    assume all: "\<forall>s \<in> set loopSuffixes. responseCode (store (labelsFile cfg s)) = 200"
    have "responseCode (store (urlLabel cfg (1 + 100 * k))) = 200" for k
      using all batchSuffix_in_loopSuffixes[of k]
      by (simp add: urlLabel_file)
    then show "fst (downloadLoop_js fuel store cfg 1 [] []) = None"
      by (rule downloadLoop_js_forever)
  qed
qed

theorem suffix_wraps_after_1000_witness:
  "batchSuffix 1001 = ''001''
   \<and> batchRequests exampleConfig 1001 = batchRequests exampleConfig 1
   \<and> fst (downloadLoop_gs 40 fullStore exampleConfig 1 [] []) = None
   \<and> fst (downloadLoop_js 40 fullStore exampleConfig 1 [] []) = None"
proof -
  have one: "batchSuffix 1 = ''001''" by code_simp
  have full: "\<forall>s \<in> set loopSuffixes. responseCode (fullStore (labelsFile exampleConfig s)) = 200"
    by (simp add: fullStore_def)
  from suffix_wraps_after_1000[of 1 exampleConfig 40 fullStore] one full
  show ?thesis by simp
qed

section \<open>The claims about the paragraph dictionary\<close>

text \<open>
  Claim C1, as the code has it. Take a sheet with content whose rows all have a text in
  the column \<^verbatim>\<open>id\<close>, and a number in the column \<^verbatim>\<open>area\<close> where the id matches the
  pattern. Then
  \<^verbatim>\<open>buildParaDictFromSheet\<close> returns, and its dictionary maps each page, the text of the
  digits in the id, to the records of that page sorted by \<^verbatim>\<open>area\<close> in descending order:
  the bucket is a rearrangement of the page's records, no area in it is followed by a
  larger one, and records of one area stand in the order of their rows. A page without
  records is no key.
\<close>

theorem pages_sorted_by_area_descending:
  assumes "getSheet cfg book = Some sheet"
    and "0 < getLastColumn (grid sheet)"
    and "\<forall>f \<in> set (dataRecords pf sheet). hasTextId f"
    and "\<forall>f \<in> set (dataRecords pf sheet). pageOf f \<noteq> None \<longrightarrow> hasNumericArea f"
  shows "\<exists>st. buildParaDictFromSheet pf cfg book = Inr st \<and>
           (\<forall>page.
              (pageRecords page (dataRecords pf sheet) = [] \<longrightarrow> map_of (paraDict st) page = None) \<and>
              (pageRecords page (dataRecords pf sheet) \<noteq> [] \<longrightarrow>
                 (\<exists>bucket. map_of (paraDict st) page = Some bucket \<and>
                    bucket = sortedByAreaDescending (pageRecords page (dataRecords pf sheet)) \<and>
                    mset bucket = mset (pageRecords page (dataRecords pf sheet)) \<and>
                    sorted_wrt (\<lambda>a b. areaOf b \<le> areaOf a) bucket \<and>
                    (\<forall>q. filter (\<lambda>f. areaOf f = q) bucket =
                           filter (\<lambda>f. areaOf f = q) (pageRecords page (dataRecords pf sheet))))))"
proof -
  from build_reads[OF assms(1,2), of pf] obtain headerList vals where
    d: "dataRecords pf sheet = map (rowFeatures pf headerList) vals" and
    b: "buildParaDictFromSheet pf cfg book =
             forEachRow pf headerList \<lparr>paraDict = [], pageCount = 0, paraCount = 0\<rparr> vals"
    by blast
  have ids: "\<forall>row \<in> set vals. hasTextId (rowFeatures pf headerList row)"
    using assms(3) d by simp
  have areas: "\<forall>row \<in> set vals. pageOf (rowFeatures pf headerList row) \<noteq> None
       \<longrightarrow> hasNumericArea (rowFeatures pf headerList row)"
    using assms(4) d by simp
  have seen: "\<forall>f \<in> set ([] :: features list). pageOf f \<noteq> None \<longrightarrow> hasNumericArea f" by simp
  have inv: "\<forall>page. map_of (paraDict \<lparr>paraDict = [], pageCount = 0, paraCount = 0\<rparr>) page =
           (if pageRecords page [] = [] then None
            else Some (sortedByAreaDescending (pageRecords page [])))"
    by (simp add: pageRecords_def)
  from forEachRow_sorted[OF ids areas seen inv] obtain st where
    st: "forEachRow pf headerList \<lparr>paraDict = [], pageCount = 0, paraCount = 0\<rparr> vals = Inr st" and
    pages: "\<forall>page. map_of (paraDict st) page =
              (if pageRecords page (dataRecords pf sheet) = [] then None
               else Some (sortedByAreaDescending (pageRecords page (dataRecords pf sheet))))"
    unfolding d by auto
  have "buildParaDictFromSheet pf cfg book = Inr st" using b st by simp
  moreover have "\<forall>page.
              (pageRecords page (dataRecords pf sheet) = [] \<longrightarrow> map_of (paraDict st) page = None) \<and>
              (pageRecords page (dataRecords pf sheet) \<noteq> [] \<longrightarrow>
                 (\<exists>bucket. map_of (paraDict st) page = Some bucket \<and>
                    bucket = sortedByAreaDescending (pageRecords page (dataRecords pf sheet)) \<and>
                    mset bucket = mset (pageRecords page (dataRecords pf sheet)) \<and>
                    sorted_wrt (\<lambda>a b. areaOf b \<le> areaOf a) bucket \<and>
                    (\<forall>q. filter (\<lambda>f. areaOf f = q) bucket =
                           filter (\<lambda>f. areaOf f = q) (pageRecords page (dataRecords pf sheet)))))"
    using pages by (simp add: sortedByAreaDescending_props)
  ultimately show ?thesis by blast
qed

text \<open>
  The records \<^verbatim>\<open>doc-3-1\<close> (area 50), \<^verbatim>\<open>doc-3-2\<close> (area 200) and \<^verbatim>\<open>doc-4-1\<close> (area 10):
  page 3 holds the record of area 200 before that of area 50, page 4 the record of
  area 10.
\<close>

theorem pages_sorted_by_area_descending_witness:
  "buildParaDictFromSheet examplePlatform exampleConfig [exampleSheet] =
     Inr \<lparr>paraDict =
            [(''3'', [[(''id'', Str ''doc-3-2''), (''text'', Str ''world''), (''area'', Num 200), (''label'', Str ''other'')],
                      [(''id'', Str ''doc-3-1''), (''text'', Str ''hello''), (''area'', Num 50), (''label'', Str ''other'')]]),
             (''4'', [[(''id'', Str ''doc-4-1''), (''text'', Str ''again''), (''area'', Num 10), (''label'', Str ''other'')]])],
          pageCount = 2, paraCount = 3\<rparr>
   \<and> sortedByAreaDescending (pageRecords ''3'' (dataRecords examplePlatform exampleSheet)) =
       [[(''id'', Str ''doc-3-2''), (''text'', Str ''world''), (''area'', Num 200), (''label'', Str ''other'')],
        [(''id'', Str ''doc-3-1''), (''text'', Str ''hello''), (''area'', Num 50), (''label'', Str ''other'')]]
   \<and> sortedByAreaDescending (pageRecords ''4'' (dataRecords examplePlatform exampleSheet)) =
       [[(''id'', Str ''doc-4-1''), (''text'', Str ''again''), (''area'', Num 10), (''label'', Str ''other'')]]"
proof -
  have h1: "getSheet exampleConfig [exampleSheet] = Some exampleSheet" by code_simp
  have h2: "0 < getLastColumn (grid exampleSheet)" by code_simp
  have h3: "\<forall>f \<in> set (dataRecords examplePlatform exampleSheet). hasTextId f" by code_simp
  have h4: "\<forall>f \<in> set (dataRecords examplePlatform exampleSheet). pageOf f \<noteq> None \<longrightarrow> hasNumericArea f"
    by code_simp
  have n3: "pageRecords ''3'' (dataRecords examplePlatform exampleSheet) \<noteq> []" by code_simp
  have n4: "pageRecords ''4'' (dataRecords examplePlatform exampleSheet) \<noteq> []" by code_simp
  have s3: "sortedByAreaDescending (pageRecords ''3'' (dataRecords examplePlatform exampleSheet)) =
       [[(''id'', Str ''doc-3-2''), (''text'', Str ''world''), (''area'', Num 200), (''label'', Str ''other'')],
        [(''id'', Str ''doc-3-1''), (''text'', Str ''hello''), (''area'', Num 50), (''label'', Str ''other'')]]"
    by code_simp
  have s4: "sortedByAreaDescending (pageRecords ''4'' (dataRecords examplePlatform exampleSheet)) =
       [[(''id'', Str ''doc-4-1''), (''text'', Str ''again''), (''area'', Num 10), (''label'', Str ''other'')]]"
    by code_simp
  note run = exampleSheet_build
  from pages_sorted_by_area_descending[OF h1 h2 h3 h4] obtain st where
    "buildParaDictFromSheet examplePlatform exampleConfig [exampleSheet] = Inr st"
    "map_of (paraDict st) ''3'' = Some (sortedByAreaDescending (pageRecords ''3'' (dataRecords examplePlatform exampleSheet)))"
    "map_of (paraDict st) ''4'' = Some (sortedByAreaDescending (pageRecords ''4'' (dataRecords examplePlatform exampleSheet)))"
    using n3 n4 by auto
  then show ?thesis using run s3 s4 by simp
qed

text \<open>
  The claim as stated fails for a sheet with well-formed ids whose \<^verbatim>\<open>area\<close> cells hold
  texts: \<^verbatim>\<open>a.area < b.area\<close> compares two texts character by character, so the records
  of the areas \<^verbatim>\<open>"50"\<close>, \<^verbatim>\<open>"200"\<close> and \<^verbatim>\<open>"120"\<close> of page 3 stay in this order, where
  the descending order of the numbers is 200, 120, 50.
\<close>

theorem text_areas_are_compared_as_texts:
  "getSheet exampleConfig [textAreaSheet] = Some textAreaSheet
   \<and> map pageOf (dataRecords examplePlatform textAreaSheet) = [Some ''3'', Some ''3'', Some ''3'', None]
   \<and> list_all hasTextId (dataRecords examplePlatform textAreaSheet)
   \<and> buildParaDictFromSheet examplePlatform exampleConfig [textAreaSheet] =
       Inr \<lparr>paraDict =
              [(''3'', [[(''id'', Str ''doc-3-1''), (''text'', Str ''hello''), (''area'', Str ''50''), (''label'', Str ''other'')],
                        [(''id'', Str ''doc-3-2''), (''text'', Str ''world''), (''area'', Str ''200''), (''label'', Str ''other'')],
                        [(''id'', Str ''doc-3-3''), (''text'', Str ''again''), (''area'', Str ''120''), (''label'', Str ''other'')]])],
            pageCount = 1, paraCount = 3\<rparr>
   \<and> map (areaNumber examplePlatform)
         [[(''id'', Str ''doc-3-1''), (''text'', Str ''hello''), (''area'', Str ''50''), (''label'', Str ''other'')],
          [(''id'', Str ''doc-3-2''), (''text'', Str ''world''), (''area'', Str ''200''), (''label'', Str ''other'')],
          [(''id'', Str ''doc-3-3''), (''text'', Str ''again''), (''area'', Str ''120''), (''label'', Str ''other'')]]
       = [Some 50, Some 200, Some 120]
   \<and> sortedByAreaNumberDescending examplePlatform
         (pageRecords ''3'' (dataRecords examplePlatform textAreaSheet)) =
       [[(''id'', Str ''doc-3-2''), (''text'', Str ''world''), (''area'', Str ''200''), (''label'', Str ''other'')],
        [(''id'', Str ''doc-3-3''), (''text'', Str ''again''), (''area'', Str ''120''), (''label'', Str ''other'')],
        [(''id'', Str ''doc-3-1''), (''text'', Str ''hello''), (''area'', Str ''50''), (''label'', Str ''other'')]]"
proof (intro conjI)
  show "getSheet exampleConfig [textAreaSheet] = Some textAreaSheet" by code_simp
  show "map pageOf (dataRecords examplePlatform textAreaSheet) = [Some ''3'', Some ''3'', Some ''3'', None]"
    by code_simp
  show "list_all hasTextId (dataRecords examplePlatform textAreaSheet)" by code_simp
  show "buildParaDictFromSheet examplePlatform exampleConfig [textAreaSheet] =
       Inr \<lparr>paraDict =
              [(''3'', [[(''id'', Str ''doc-3-1''), (''text'', Str ''hello''), (''area'', Str ''50''), (''label'', Str ''other'')],
                        [(''id'', Str ''doc-3-2''), (''text'', Str ''world''), (''area'', Str ''200''), (''label'', Str ''other'')],
                        [(''id'', Str ''doc-3-3''), (''text'', Str ''again''), (''area'', Str ''120''), (''label'', Str ''other'')]])],
            pageCount = 1, paraCount = 3\<rparr>"
    by code_simp
  show "map (areaNumber examplePlatform)
         [[(''id'', Str ''doc-3-1''), (''text'', Str ''hello''), (''area'', Str ''50''), (''label'', Str ''other'')],
          [(''id'', Str ''doc-3-2''), (''text'', Str ''world''), (''area'', Str ''200''), (''label'', Str ''other'')],
          [(''id'', Str ''doc-3-3''), (''text'', Str ''again''), (''area'', Str ''120''), (''label'', Str ''other'')]]
       = [Some 50, Some 200, Some 120]"
    by code_simp
  show "sortedByAreaNumberDescending examplePlatform
         (pageRecords ''3'' (dataRecords examplePlatform textAreaSheet)) =
       [[(''id'', Str ''doc-3-2''), (''text'', Str ''world''), (''area'', Str ''200''), (''label'', Str ''other'')],
        [(''id'', Str ''doc-3-3''), (''text'', Str ''again''), (''area'', Str ''120''), (''label'', Str ''other'')],
        [(''id'', Str ''doc-3-1''), (''text'', Str ''hello''), (''area'', Str ''50''), (''label'', Str ''other'')]]"
    by code_simp
qed

text \<open>
  Claim C7, as the code has it. A row whose \<^verbatim>\<open>id\<close> is a text that the pattern does not
  match, \<^verbatim>\<open>malformed_id\<close> for one, is passed over: the body of the loop returns with the
  dictionary and both counts as they were and raises nothing, so the loop over the rows
  with this row gives what the loop over the rows without it gives. Every record in a
  bucket of a dictionary that was built has an id that matches with the page of the
  bucket, so the record of such a row is in none. The two counts that are logged are
  the number of pages and the number of records in the dictionary; no count is kept of
  the rows passed over.
\<close>

theorem unmatched_text_id_is_skipped:
  "(map_of (rowFeatures pf h row) ''id'' = Some (Str s) \<and> idMatch s = None \<longrightarrow>
      processRow pf h st row = Inr st \<and>
      forEachRow pf h st (before @ row # after) = forEachRow pf h st (before @ after))
   \<and> (buildParaDictFromSheet pf cfg book = Inr result \<and> map_of (paraDict result) page = Some bucket
        \<and> f \<in> set bucket \<longrightarrow> pageOf f = Some page)
   \<and> (buildParaDictFromSheet pf cfg book = Inr result \<longrightarrow>
        pageCount result = length (paraDict result) \<and>
        paraCount result = sum_list (map (\<lambda>(page, bucket). length bucket) (paraDict result)))
   \<and> idMatch ''malformed_id'' = None"
proof (intro conjI impI)
  assume a: "map_of (rowFeatures pf h row) ''id'' = Some (Str s) \<and> idMatch s = None"
  then have skip: "processRow pf h st' row = Inr st'" for st'
    using processRow_no_match by blast
  show "processRow pf h st row = Inr st" by (rule skip)
  show "forEachRow pf h st (before @ row # after) = forEachRow pf h st (before @ after)"
    by (simp add: forEachRow_append skip split: sum.splits)
next
  assume "buildParaDictFromSheet pf cfg book = Inr result \<and> map_of (paraDict result) page = Some bucket
        \<and> f \<in> set bucket"
  then show "pageOf f = Some page" using build_keeps_pages by blast
next
  assume "buildParaDictFromSheet pf cfg book = Inr result"
  then show "pageCount result = length (paraDict result)"
    using build_counts by blast
next
  assume "buildParaDictFromSheet pf cfg book = Inr result"
  then show "paraCount result = sum_list (map (\<lambda>(page, bucket). length bucket) (paraDict result))"
    using build_counts by blast
next
  show "idMatch ''malformed_id'' = None" by code_simp
qed

text \<open>The row of \<^verbatim>\<open>malformed_id\<close> in the example sheet.\<close>

theorem unmatched_text_id_is_skipped_witness:
  "buildParaDictFromSheet examplePlatform exampleConfig [exampleSheet] =
     Inr \<lparr>paraDict =
            [(''3'', [[(''id'', Str ''doc-3-2''), (''text'', Str ''world''), (''area'', Num 200), (''label'', Str ''other'')],
                      [(''id'', Str ''doc-3-1''), (''text'', Str ''hello''), (''area'', Num 50), (''label'', Str ''other'')]]),
             (''4'', [[(''id'', Str ''doc-4-1''), (''text'', Str ''again''), (''area'', Num 10), (''label'', Str ''other'')]])],
          pageCount = 2, paraCount = 3\<rparr>
   \<and> pageOf [(''id'', Str ''doc-3-2''), (''text'', Str ''world''), (''area'', Num 200), (''label'', Str ''other'')] = Some ''3''
   \<and> processRow examplePlatform [Str ''id'', Str ''text'', Str ''area'', Str ''label'']
        \<lparr>paraDict = [], pageCount = 0, paraCount = 0\<rparr>
        [Str ''malformed_id'', Str ''what'', Num 70, Str ''other''] =
      Inr \<lparr>paraDict = [], pageCount = 0, paraCount = 0\<rparr>
   \<and> forEachRow examplePlatform [Str ''id'', Str ''text'', Str ''area'', Str ''label'']
        \<lparr>paraDict = [], pageCount = 0, paraCount = 0\<rparr>
        ([[Str ''doc-3-1'', Str ''hello'', Num 50, Str ''other'']]
         @ [Str ''malformed_id'', Str ''what'', Num 70, Str ''other'']
         # [[Str ''doc-4-1'', Str ''again'', Num 10, Str ''other'']]) =
     forEachRow examplePlatform [Str ''id'', Str ''text'', Str ''area'', Str ''label'']
        \<lparr>paraDict = [], pageCount = 0, paraCount = 0\<rparr>
        ([[Str ''doc-3-1'', Str ''hello'', Num 50, Str ''other'']]
         @ [[Str ''doc-4-1'', Str ''again'', Num 10, Str ''other'']])"
proof -
  let ?h = "[Str ''id'', Str ''text'', Str ''area'', Str ''label'']"
  let ?row = "[Str ''malformed_id'', Str ''what'', Num 70, Str ''other'']"
  let ?f = "[(''id'', Str ''doc-3-2''), (''text'', Str ''world''), (''area'', Num 200), (''label'', Str ''other'')]"
  let ?b = "[?f, [(''id'', Str ''doc-3-1''), (''text'', Str ''hello''), (''area'', Num 50), (''label'', Str ''other'')]]"
  let ?r = "\<lparr>paraDict =
            [(''3'', ?b),
             (''4'', [[(''id'', Str ''doc-4-1''), (''text'', Str ''again''), (''area'', Num 10), (''label'', Str ''other'')]])],
          pageCount = 2, paraCount = 3\<rparr>"
  have id: "map_of (rowFeatures examplePlatform ?h ?row) ''id'' = Some (Str ''malformed_id'')
      \<and> idMatch ''malformed_id'' = None"
    by code_simp
  have run: "buildParaDictFromSheet examplePlatform exampleConfig [exampleSheet] = Inr ?r"
    by (rule exampleSheet_build)
  have look: "map_of (paraDict ?r) ''3'' = Some ?b" by simp
  have mem: "?f \<in> set ?b" by simp
  note inst = unmatched_text_id_is_skipped[of examplePlatform ?h ?row "''malformed_id''"
      "\<lparr>paraDict = [], pageCount = 0, paraCount = 0\<rparr>"
      "[[Str ''doc-3-1'', Str ''hello'', Num 50, Str ''other'']]"
      "[[Str ''doc-4-1'', Str ''again'', Num 10, Str ''other'']]"
      exampleConfig "[exampleSheet]" ?r "''3''" ?b ?f]
  from inst id run look mem show ?thesis by blast
qed

text \<open>
  The claim as stated fails for a record without an \<^verbatim>\<open>id\<close> field: on a sheet with the
  columns \<^verbatim>\<open>text\<close> and \<^verbatim>\<open>area\<close> only, \<^verbatim>\<open>features.id\<close> is \<^verbatim>\<open>undefined\<close> and the call of
  \<^verbatim>\<open>match\<close> on it ends the build with a TypeError.
\<close>

theorem missing_id_column_raises:
  "buildParaDictFromSheet examplePlatform exampleConfig [noIdSheet] = Inl TypeError"
  by code_simp

text \<open>
  Claim C8, as the code has it. Without a sheet of the name \<^verbatim>\<open>getParaDict\<close> returns
  \<^verbatim>\<open>null\<close>. With one it never returns \<^verbatim>\<open>null\<close>: it returns the JSON text of the dictionary
  that \<^verbatim>\<open>buildParaDictFromSheet\<close> returns, and where that raises, so does \<^verbatim>\<open>getParaDict\<close>.
\<close>

theorem getParaDict_null_or_json:
  "(getSheet cfg book = None \<longrightarrow> getParaDict pf cfg book = Inr None)
   \<and> (getSheet cfg book \<noteq> None \<longrightarrow>
        getParaDict pf cfg book =
          (case buildParaDictFromSheet pf cfg book of
             Inl e \<Rightarrow> Inl e
           | Inr st \<Rightarrow> Inr (Some (stringify pf (paraDict st)))))"
  by (auto simp add: getParaDict_def split: option.splits)

text \<open>No sheet at all, and the example sheet.\<close>

theorem getParaDict_null_or_json_witness:
  "getParaDict examplePlatform exampleConfig [] = Inr None
   \<and> getParaDict examplePlatform exampleConfig [exampleSheet] = Inr (Some ''3:2;4:1;'')"
proof -
  have a: "getSheet exampleConfig [] = None" by code_simp
  have b: "getSheet exampleConfig [exampleSheet] \<noteq> None" by code_simp
  have c: "(case buildParaDictFromSheet examplePlatform exampleConfig [exampleSheet] of
             Inl e \<Rightarrow> Inl e
           | Inr st \<Rightarrow> Inr (Some (stringify examplePlatform (paraDict st)))) = Inr (Some ''3:2;4:1;'')"
    by code_simp
  from getParaDict_null_or_json[of exampleConfig "[]" examplePlatform] a
  have 1: "getParaDict examplePlatform exampleConfig [] = Inr None" by blast
  from getParaDict_null_or_json[of exampleConfig "[exampleSheet]" examplePlatform] b
  have 2: "getParaDict examplePlatform exampleConfig [exampleSheet] =
          (case buildParaDictFromSheet examplePlatform exampleConfig [exampleSheet] of
             Inl e \<Rightarrow> Inl e
           | Inr st \<Rightarrow> Inr (Some (stringify examplePlatform (paraDict st))))" by blast
  from 1 2 c show ?thesis by simp
qed

text \<open>
  The claim as stated fails for a sheet that is there and whose \<^verbatim>\<open>id\<close> cells hold numbers: a
  number has no method \<^verbatim>\<open>match\<close>, and \<^verbatim>\<open>getParaDict\<close> ends with a TypeError and returns
  no text.
\<close>

theorem existing_sheet_with_numeric_ids_raises:
  "getSheet exampleConfig [numericIdSheet] = Some numericIdSheet
   \<and> getParaDict examplePlatform exampleConfig [numericIdSheet] = Inl TypeError"
  by code_simp

section \<open>The claims about \<^verbatim>\<open>downloadLabels\<close> after the loop\<close>

text \<open>
  Claim C3, as the code has it. When the header has no \<^verbatim>\<open>label\<close> and every row, the
  header too, has two cells or more, the step appends one cell to every row: \<^verbatim>\<open>label\<close> to
  the header, and to a data row \<^verbatim>\<open>body\<close> when the text at index 1 is longer than 100
  characters and \<^verbatim>\<open>other\<close> when it is not. When the header has a \<^verbatim>\<open>label\<close> the rows
  are returned as they are. When the header has no \<^verbatim>\<open>label\<close> and some row has fewer than
  two cells, or when there is no row at all, the step raises a TypeError.
\<close>

theorem label_column_added_when_missing:
  "(''label'' \<notin> set header \<and> (\<forall>row \<in> set (header # rest). 2 \<le> length row) \<longrightarrow>
      reconcileLabels (header # rest) =
        Inr ((header @ [''label''])
             # map (\<lambda>x. x @ [if 100 < length (x ! 1) then ''body'' else ''other'']) rest))
   \<and> (''label'' \<in> set header \<longrightarrow> reconcileLabels (header # rest) = Inr (header # rest))
   \<and> (''label'' \<notin> set header \<and> (\<exists>row \<in> set (header # rest). length row < 2) \<longrightarrow>
        reconcileLabels (header # rest) = Inl TypeError)
   \<and> reconcileLabels [] = Inl TypeError"
proof (intro conjI impI)
  assume a: "''label'' \<notin> set header \<and> (\<forall>row \<in> set (header # rest). 2 \<le> length row)"
  then have "mapRows pushDefault (header # rest) =
     Inr (map (\<lambda>x. x @ [if 100 < length (x ! 1) then ''body'' else ''other'']) (header # rest))"
    using mapRows_pushDefault[of "header # rest"] by blast
  then show "reconcileLabels (header # rest) =
        Inr ((header @ [''label''])
             # map (\<lambda>x. x @ [if 100 < length (x ! 1) then ''body'' else ''other'']) rest)"
    using a by (simp add: reconcileLabels_def)
next
  assume "''label'' \<in> set header"
  then show "reconcileLabels (header # rest) = Inr (header # rest)"
    by (simp add: reconcileLabels_def)
next
  assume a: "''label'' \<notin> set header \<and> (\<exists>row \<in> set (header # rest). length row < 2)"
  then have "mapRows pushDefault (header # rest) = Inl TypeError"
    using mapRows_pushDefault_short[of "header # rest"] by blast
  then show "reconcileLabels (header # rest) = Inl TypeError"
    using a by (simp add: reconcileLabels_def)
next
  show "reconcileLabels [] = Inl TypeError" by (simp add: reconcileLabels_def)
qed

text \<open>A text of 101 characters, one of 100, a header with \<^verbatim>\<open>label\<close>, and a short row.\<close>

theorem label_column_added_when_missing_witness:
  "reconcileLabels [[''id'', ''text''], [''doc-1-1'', replicate 101 CHR ''a''], [''doc-1-2'', replicate 100 CHR ''a'']] =
     Inr [[''id'', ''text'', ''label''], [''doc-1-1'', replicate 101 CHR ''a'', ''body''],
          [''doc-1-2'', replicate 100 CHR ''a'', ''other'']]
   \<and> reconcileLabels [[''id'', ''text'', ''label''], [''doc-1-1'', ''hello'', ''body'']] =
     Inr [[''id'', ''text'', ''label''], [''doc-1-1'', ''hello'', ''body'']]
   \<and> reconcileLabels [[''id'', ''text''], [''doc-1-1'']] = Inl TypeError"
proof -
  have 1: "''label'' \<notin> set [''id'', ''text''] \<and>
       (\<forall>row \<in> set ([''id'', ''text''] # [[''doc-1-1'', replicate 101 CHR ''a''], [''doc-1-2'', replicate 100 CHR ''a'']]). 2 \<le> length row)"
    by simp
  have 2: "''label'' \<in> set [''id'', ''text'', ''label'']" by simp
  have 3: "''label'' \<notin> set [''id'', ''text''] \<and> (\<exists>row \<in> set ([''id'', ''text''] # [[''doc-1-1'']]). length row < 2)"
    by simp
  from label_column_added_when_missing[of "[''id'', ''text'']"
      "[[''doc-1-1'', replicate 101 CHR ''a''], [''doc-1-2'', replicate 100 CHR ''a'']]"] 1
  have a: "reconcileLabels [[''id'', ''text''], [''doc-1-1'', replicate 101 CHR ''a''], [''doc-1-2'', replicate 100 CHR ''a'']] =
     Inr [[''id'', ''text'', ''label''], [''doc-1-1'', replicate 101 CHR ''a'', ''body''],
          [''doc-1-2'', replicate 100 CHR ''a'', ''other'']]"
    by simp
  from label_column_added_when_missing[of "[''id'', ''text'', ''label'']" "[[''doc-1-1'', ''hello'', ''body'']]"] 2
  have b: "reconcileLabels [[''id'', ''text'', ''label''], [''doc-1-1'', ''hello'', ''body'']] =
     Inr [[''id'', ''text'', ''label''], [''doc-1-1'', ''hello'', ''body'']]"
    by blast
  from label_column_added_when_missing[of "[''id'', ''text'']" "[[''doc-1-1'']]"] 3
  have c: "reconcileLabels [[''id'', ''text''], [''doc-1-1'']] = Inl TypeError"
    by blast
  from a b c show ?thesis by blast
qed

text \<open>
  The claim as stated fails for rows of one column: the header \<^verbatim>\<open>id\<close> has no \<^verbatim>\<open>label\<close>,
  and no column is appended, since \<^verbatim>\<open>x[1].length\<close> raises a TypeError.
\<close>

theorem single_column_rows_raise:
  "reconcileLabels [[''id''], [''doc-1-1'']] = Inl TypeError"
  by code_simp

section \<open>The claim about \<^verbatim>\<open>updateLabel\<close>\<close>

text \<open>
  Where \<^verbatim>\<open>updateLabel\<close> writes. When the text finder stops in row \<open>r\<close> and the header has
  a \<^verbatim>\<open>label\<close>, \<^verbatim>\<open>updateLabel\<close> returns: the cell of row \<open>r\<close> in the first column headed
  \<^verbatim>\<open>label\<close> holds what the sheet stores for the label text, its background is \<^verbatim>\<open>wheat\<close>,
  and no other cell, no other background and no other sheet has changed. Row \<open>r\<close> is the
  row of the cell that holds exactly the id whenever no cell before that one contains the
  id.
\<close>

lemma updateLabel_writes_at_found_row:
  assumes "sheetIndex book (pdfId cfg) = Some i"
    and "findNext pf (book ! i) ident = Some (r, c)"
    and "getHeaderList cfg book = Inr headerList"
    and "Str ''label'' \<in> set headerList"
    and "ident \<noteq> []"
  shows "\<exists>book' col.
           updateLabel pf cfg ident label book = Inr book'
           \<and> int col = indexOf headerList (Str ''label'') + 1
           \<and> 1 \<le> col \<and> col \<le> length headerList \<and> headerList ! (col - 1) = Str ''label''
           \<and> 1 \<le> r \<and> cellMatches pf ident (cellAt (grid (book ! i)) r c)
           \<and> (\<forall>r' c'. r' < r \<or> (r' = r \<and> c' < c)
                 \<longrightarrow> \<not> cellMatches pf ident (cellAt (grid (book ! i)) r' c'))
           \<and> (\<forall>r0 c0. cellAt (grid (book ! i)) r0 c0 = Str ident
                 \<and> (\<forall>r' c'. r' < r0 \<or> (r' = r0 \<and> c' < c0)
                       \<longrightarrow> \<not> cellMatches pf ident (cellAt (grid (book ! i)) r' c'))
                 \<longrightarrow> r = r0 \<and> c = c0)
           \<and> length book' = length book \<and> (\<forall>j. j \<noteq> i \<longrightarrow> book' ! j = book ! j)
           \<and> sheetName (book' ! i) = sheetName (book ! i)
           \<and> cellAt (grid (book' ! i)) r col = enterValue pf label
           \<and> (\<forall>r' c'. (r', c') \<noteq> (r, col)
                 \<longrightarrow> cellAt (grid (book' ! i)) r' c' = cellAt (grid (book ! i)) r' c')
           \<and> map_of (backgrounds (book' ! i)) (r, col) = Some ''wheat''
           \<and> (\<forall>k. k \<noteq> (r, col)
                 \<longrightarrow> map_of (backgrounds (book' ! i)) k = map_of (backgrounds (book ! i)) k)"
proof -
  let ?k = "indexOf headerList (Str ''label'')"
  let ?col = "nat (?k + 1)"
  let ?sheet = "setBackground r ?col ''wheat'' (setValue pf r ?col label (book ! i))"
  let ?book = "book[i := ?sheet]"
  from indexOf_mem[OF assms(4)] have k: "0 \<le> ?k" "nat ?k < length headerList"
    "headerList ! nat ?k = Str ''label''" by simp_all
  have col: "int ?col = ?k + 1" "1 \<le> ?col" "?col \<le> length headerList" "?col - 1 = nat ?k"
    using k by simp_all
  have i: "i < length book" using sheetIndex_Some[OF assms(1)] by simp
  from findNext_first[OF assms(2,5)] have f: "1 \<le> r"
    "cellMatches pf ident (cellAt (grid (book ! i)) r c)"
    "\<forall>r' c'. r' < r \<or> (r' = r \<and> c' < c) \<longrightarrow> \<not> cellMatches pf ident (cellAt (grid (book ! i)) r' c')"
    by simp_all
  have own: "\<forall>r0 c0. cellAt (grid (book ! i)) r0 c0 = Str ident
                 \<and> (\<forall>r' c'. r' < r0 \<or> (r' = r0 \<and> c' < c0)
                       \<longrightarrow> \<not> cellMatches pf ident (cellAt (grid (book ! i)) r' c'))
                 \<longrightarrow> r = r0 \<and> c = c0"
    using findNext_is_first_id_cell[OF assms(2,5)] by blast
  have run: "updateLabel pf cfg ident label book = Inr ?book"
    using assms(1,2,3) k(1) by (simp add: updateLabel_def changeSheet_def Let_def)
  have at: "?book ! i = ?sheet" using i by simp
  have g: "grid ?sheet = setCell (grid (book ! i)) r ?col (enterValue pf label)"
    by (simp add: setBackground_def setValue_def)
  have b: "backgrounds ?sheet = AList.update (r, ?col) ''wheat'' (backgrounds (book ! i))"
    by (simp add: setBackground_def setValue_def)
  have n: "sheetName ?sheet = sheetName (book ! i)"
    by (simp add: setBackground_def setValue_def)
  have 1: "cellAt (grid (?book ! i)) r ?col = enterValue pf label"
    unfolding at g using f(1) col(2) by (rule cellAt_setCell_same)
  have 2: "\<forall>r' c'. (r', c') \<noteq> (r, ?col)
                 \<longrightarrow> cellAt (grid (?book ! i)) r' c' = cellAt (grid (book ! i)) r' c'"
    unfolding at g using f(1) col(2) by (simp add: cellAt_setCell_other)
  have 3: "map_of (backgrounds (?book ! i)) (r, ?col) = Some ''wheat''"
    unfolding at b by (simp add: update_conv')
  have 4: "\<forall>k. k \<noteq> (r, ?col)
                 \<longrightarrow> map_of (backgrounds (?book ! i)) k = map_of (backgrounds (book ! i)) k"
    unfolding at b by (simp add: update_conv')
  have 5: "length ?book = length book \<and> (\<forall>j. j \<noteq> i \<longrightarrow> ?book ! j = book ! j)" by simp
  have 6: "sheetName (?book ! i) = sheetName (book ! i)" unfolding at n by (rule refl)
  have 7: "headerList ! (?col - 1) = Str ''label''" unfolding col(4) by (rule k(3))
  show ?thesis
    using run col(1,2,3) 7 f own 5 6 1 2 3 4 by blast
qed

text \<open>The label of \<^verbatim>\<open>doc-3-2\<close> in the example sheet: row 4, column 4.\<close>

lemma exampleSheet_updateLabel:
  "updateLabel examplePlatform exampleConfig ''doc-3-2'' ''body'' [exampleSheet] =
     Inr [\<lparr>sheetName = ''abcd'',
           grid = [[Str ''id'', Str ''text'', Str ''area'', Str ''label''],
                   [Str ''doc-3-1'', Str ''hello'', Num 50, Str ''other''],
                   [Str ''malformed_id'', Str ''what'', Num 70, Str ''other''],
                   [Str ''doc-3-2'', Str ''world'', Num 200, Str ''body''],
                   [Str ''doc-4-1'', Str ''again'', Num 10, Str ''other'']],
           backgrounds = [((4, 4), ''wheat'')]\<rparr>]
   \<and> findNext examplePlatform exampleSheet ''doc-3-2'' = Some (4, 1)
   \<and> indexOf [Str ''id'', Str ''text'', Str ''area'', Str ''label''] (Str ''label'') + 1 = 4"
proof -
  let ?h = "[Str ''id'', Str ''text'', Str ''area'', Str ''label'']"
  have h1: "sheetIndex [exampleSheet] (pdfId exampleConfig) = Some 0" by code_simp
  have h2: "findNext examplePlatform ([exampleSheet] ! 0) ''doc-3-2'' = Some (4, 1)" by code_simp
  have h3: "getHeaderList exampleConfig [exampleSheet] = Inr ?h" by code_simp
  have h4: "Str ''label'' \<in> set ?h" by simp
  have h5: "''doc-3-2'' \<noteq> []" by simp
  from updateLabel_writes_at_found_row[OF h1 h2 h3 h4 h5, of "''body''"]
  obtain book' col where "updateLabel examplePlatform exampleConfig ''doc-3-2'' ''body'' [exampleSheet] = Inr book'"
    "int col = indexOf ?h (Str ''label'') + 1" "cellAt (grid (book' ! 0)) 4 col = enterValue examplePlatform ''body''"
    by blast
  moreover have "indexOf ?h (Str ''label'') + 1 = 4" by code_simp
  ultimately show ?thesis using exampleSheet_update h2 by simp
qed

text \<open>
  Claim C5 fails on the code: \<^verbatim>\<open>updateLabel\<close> looks for the row of the id with a text
  finder of the whole sheet, which is not confined to the column \<^verbatim>\<open>id\<close> and which matches
  a part of a cell.

  In the first sheet the row of \<^verbatim>\<open>doc-1-10\<close>, row 2, stands before the row of \<^verbatim>\<open>doc-1-1\<close>,
  row 3: for \<^verbatim>\<open>doc-1-1\<close> the finder stops at the cell \<^verbatim>\<open>doc-1-10\<close>, the label of row 2 is
  overwritten and row 3 keeps its label. In the second sheet the text of the record in
  row 2 is \<^verbatim>\<open>doc-1-2\<close>, the id of the record in row 3: for \<^verbatim>\<open>doc-1-2\<close> the finder stops
  in the column \<^verbatim>\<open>text\<close> of row 2, at a cell that holds exactly the searched text, and
  again the label of row 2 is overwritten and row 3 keeps its label.
\<close>

theorem updateLabel_overwrites_label_of_another_row:
  "cellAt (grid reorderedSheet) 2 1 = Str ''doc-1-10''
   \<and> cellAt (grid reorderedSheet) 3 1 = Str ''doc-1-1''
   \<and> findNext examplePlatform reorderedSheet ''doc-1-1'' = Some (2, 1)
   \<and> updateLabel examplePlatform exampleConfig ''doc-1-1'' ''body'' [reorderedSheet] =
       Inr [\<lparr>sheetName = ''abcd'',
             grid = [[Str ''id'', Str ''text'', Str ''label''],
                     [Str ''doc-1-10'', Str ''ten'', Str ''body''],
                     [Str ''doc-1-1'', Str ''one'', Str ''other'']],
             backgrounds = [((2, 3), ''wheat'')]\<rparr>]
   \<and> cellAt (grid quotingSheet) 2 2 = Str ''doc-1-2''
   \<and> cellAt (grid quotingSheet) 3 1 = Str ''doc-1-2''
   \<and> findNext examplePlatform quotingSheet ''doc-1-2'' = Some (2, 2)
   \<and> updateLabel examplePlatform exampleConfig ''doc-1-2'' ''body'' [quotingSheet] =
       Inr [\<lparr>sheetName = ''abcd'',
             grid = [[Str ''id'', Str ''text'', Str ''label''],
                     [Str ''doc-1-1'', Str ''doc-1-2'', Str ''body''],
                     [Str ''doc-1-2'', Str ''two'', Str ''other'']],
             backgrounds = [((2, 3), ''wheat'')]\<rparr>]"
proof (intro conjI)
  show "cellAt (grid reorderedSheet) 2 1 = Str ''doc-1-10''" by code_simp
  show "cellAt (grid reorderedSheet) 3 1 = Str ''doc-1-1''" by code_simp
  show "findNext examplePlatform reorderedSheet ''doc-1-1'' = Some (2, 1)" by code_simp
  show "updateLabel examplePlatform exampleConfig ''doc-1-1'' ''body'' [reorderedSheet] =
       Inr [\<lparr>sheetName = ''abcd'',
             grid = [[Str ''id'', Str ''text'', Str ''label''],
                     [Str ''doc-1-10'', Str ''ten'', Str ''body''],
                     [Str ''doc-1-1'', Str ''one'', Str ''other'']],
             backgrounds = [((2, 3), ''wheat'')]\<rparr>]"
    by code_simp
  show "cellAt (grid quotingSheet) 2 2 = Str ''doc-1-2''" by code_simp
  show "cellAt (grid quotingSheet) 3 1 = Str ''doc-1-2''" by code_simp
  show "findNext examplePlatform quotingSheet ''doc-1-2'' = Some (2, 2)" by code_simp
  show "updateLabel examplePlatform exampleConfig ''doc-1-2'' ''body'' [quotingSheet] =
       Inr [\<lparr>sheetName = ''abcd'',
             grid = [[Str ''id'', Str ''text'', Str ''label''],
                     [Str ''doc-1-1'', Str ''doc-1-2'', Str ''body''],
                     [Str ''doc-1-2'', Str ''two'', Str ''other'']],
             backgrounds = [((2, 3), ''wheat'')]\<rparr>]"
    by code_simp
qed

text \<open>
  Claim C4, as the code has it. Take a spreadsheet with no two sheets of one name, with a
  sheet named by the id and none named by the archival name
  \<^verbatim>\<open><id>.old.<time>\<close>, and rows of one width, at least one row and one column. Then the
  step returns; the old sheet stands where it stood under the archival name, with its
  cells; one new sheet is added, the only sheet named by the id, and it holds the rows,
  as the sheet stores them, from row 1 and column 1 on; every other sheet is as it was.
  And whatever the spreadsheet and the rows, and whether the step returns or raises:
  every sheet that was there is there afterwards, with its cells and backgrounds.
\<close>

theorem sync_archives_old_sheet:
  "(sheetIndex book (pdfId cfg) = Some i
      \<and> distinct (map sheetName book)
      \<and> pdfId cfg @ ''.old.'' @ now \<notin> set (map sheetName book)
      \<and> header \<noteq> [] \<and> (\<forall>row \<in> set rest. length row = length header)
    \<longrightarrow> (\<exists>book'. syncSheet pf cfg now (header # rest) book = Inr book'
           \<and> book' = book[i := (book ! i)\<lparr>sheetName := pdfId cfg @ ''.old.'' @ now\<rparr>]
                      @ [\<lparr>sheetName = pdfId cfg, grid = map (map (enterValue pf)) (header # rest),
                          backgrounds = []\<rparr>]
           \<and> filter (\<lambda>s. sheetName s = pdfId cfg) book' =
               [\<lparr>sheetName = pdfId cfg, grid = map (map (enterValue pf)) (header # rest),
                 backgrounds = []\<rparr>]
           \<and> getSheet cfg book' =
               Some \<lparr>sheetName = pdfId cfg, grid = map (map (enterValue pf)) (header # rest),
                     backgrounds = []\<rparr>
           \<and> book' ! i = (book ! i)\<lparr>sheetName := pdfId cfg @ ''.old.'' @ now\<rparr>
           \<and> (\<forall>j < length book. j \<noteq> i \<longrightarrow> book' ! j = book ! j)))
   \<and> (\<forall>j < length book.
         j < length (bookAfter (syncSheet pf cfg now labelData book)) \<and>
         grid (bookAfter (syncSheet pf cfg now labelData book) ! j) = grid (book ! j) \<and>
         backgrounds (bookAfter (syncSheet pf cfg now labelData book) ! j) = backgrounds (book ! j))"
proof (intro conjI impI)
  assume a: "sheetIndex book (pdfId cfg) = Some i
      \<and> distinct (map sheetName book)
      \<and> pdfId cfg @ ''.old.'' @ now \<notin> set (map sheetName book)
      \<and> header \<noteq> [] \<and> (\<forall>row \<in> set rest. length row = length header)"
  let ?old = "(book ! i)\<lparr>sheetName := pdfId cfg @ ''.old.'' @ now\<rparr>"
  let ?book1 = "book[i := ?old]"
  let ?new = "\<lparr>sheetName = pdfId cfg, grid = map (map (enterValue pf)) (header # rest),
                          backgrounds = []\<rparr>"
  from a have idx: "sheetIndex book (pdfId cfg) = Some i" by simp
  from sheetIndex_Some[OF idx] have i: "i < length book" by simp
  have arch: "(case sheetIndex book (pdfId cfg) of
              None \<Rightarrow> Inr book
            | Some oldSheet \<Rightarrow>
                setName oldSheet (sheetName (book ! oldSheet) @ ''.old.'' @ now) book) = Inr ?book1"
    using a by (intro archive_ok) simp_all
  have free: "pdfId cfg \<notin> set (map sheetName ?book1)"
    using a by (intro renamed_names) simp_all
  have ok: "\<not> (length (hd (header # rest)) < 1
        \<or> list_ex (\<lambda>row. length row \<noteq> length (hd (header # rest))) (header # rest))"
    using a by (simp add: list_ex_iff)
  have run: "syncSheet pf cfg now (header # rest) book = Inr (?book1 @ [?new])"
    unfolding syncSheet_tail[OF arch] using free ok by simp
  have none: "filter (\<lambda>s. sheetName s = pdfId cfg) ?book1 = []"
  proof -
    have "\<forall>s \<in> set ?book1. sheetName s \<noteq> pdfId cfg"
    proof
      fix s assume "s \<in> set ?book1"
      then have "sheetName s \<in> set (map sheetName ?book1)" by (rule name_mem)
      then show "sheetName s \<noteq> pdfId cfg" using free by metis
    qed
    then show ?thesis by (simp only: filter_empty_conv)
  qed
  have one: "filter (\<lambda>s. sheetName s = pdfId cfg) (?book1 @ [?new]) = [?new]"
    using none by simp
  have first: "sheetIndex (?book1 @ [?new]) (pdfId cfg) = Some (length ?book1)"
  proof (rule sheetIndex_first)
    show "length ?book1 < length (?book1 @ [?new])" by simp
    show "sheetName ((?book1 @ [?new]) ! length ?book1) = pdfId cfg" by (simp add: nth_append)
    show "\<forall>j < length ?book1. sheetName ((?book1 @ [?new]) ! j) \<noteq> pdfId cfg"
    proof (intro allI impI)
      fix j assume j: "j < length ?book1"
      then have "?book1 ! j \<in> set ?book1" by (rule nth_mem)
      then have "sheetName (?book1 ! j) \<in> set (map sheetName ?book1)" by (rule name_mem)
      then have "sheetName (?book1 ! j) \<noteq> pdfId cfg" using free by metis
      then show "sheetName ((?book1 @ [?new]) ! j) \<noteq> pdfId cfg" using j by (simp add: nth_append)
    qed
  qed
  have get: "getSheet cfg (?book1 @ [?new]) = Some ?new"
    unfolding getSheet_def getSheetByName_def first by (simp add: nth_append)
  have old: "(?book1 @ [?new]) ! i = ?old" using i by (simp add: nth_append)
  have others: "\<forall>j < length book. j \<noteq> i \<longrightarrow> (?book1 @ [?new]) ! j = book ! j"
    by (simp add: nth_append)
  show "\<exists>book'. syncSheet pf cfg now (header # rest) book = Inr book'
           \<and> book' = ?book1 @ [?new]
           \<and> filter (\<lambda>s. sheetName s = pdfId cfg) book' = [?new]
           \<and> getSheet cfg book' = Some ?new
           \<and> book' ! i = ?old
           \<and> (\<forall>j < length book. j \<noteq> i \<longrightarrow> book' ! j = book ! j)"
    using run one get old others by blast
next
  show "\<forall>j < length book.
         j < length (bookAfter (syncSheet pf cfg now labelData book)) \<and>
         grid (bookAfter (syncSheet pf cfg now labelData book) ! j) = grid (book ! j) \<and>
         backgrounds (bookAfter (syncSheet pf cfg now labelData book) ! j) = backgrounds (book ! j)"
    by (rule syncSheet_keeps_sheets)
qed

text \<open>The example sheet and an archive of 10:00:00, at 10:00:01.\<close>

theorem sync_archives_old_sheet_witness:
  "syncSheet examplePlatform exampleConfig ''10:00:01'' [[''id'', ''label''], [''doc-1-1'', ''body'']]
     [exampleSheet, archivedSheet] =
   Inr [exampleSheet\<lparr>sheetName := ''abcd.old.10:00:01''\<rparr>, archivedSheet,
        \<lparr>sheetName = ''abcd'', grid = [[Str ''id'', Str ''label''], [Str ''doc-1-1'', Str ''body'']],
         backgrounds = []\<rparr>]
   \<and> filter (\<lambda>s. sheetName s = ''abcd'')
        [exampleSheet\<lparr>sheetName := ''abcd.old.10:00:01''\<rparr>, archivedSheet,
         \<lparr>sheetName = ''abcd'', grid = [[Str ''id'', Str ''label''], [Str ''doc-1-1'', Str ''body'']],
          backgrounds = []\<rparr>] =
       [\<lparr>sheetName = ''abcd'', grid = [[Str ''id'', Str ''label''], [Str ''doc-1-1'', Str ''body'']],
         backgrounds = []\<rparr>]"
proof -
  have h: "sheetIndex [exampleSheet, archivedSheet] (pdfId exampleConfig) = Some 0
      \<and> distinct (map sheetName [exampleSheet, archivedSheet])
      \<and> pdfId exampleConfig @ ''.old.'' @ ''10:00:01'' \<notin> set (map sheetName [exampleSheet, archivedSheet])
      \<and> [''id'', ''label''] \<noteq> [] \<and> (\<forall>row \<in> set [[''doc-1-1'', ''body'']]. length row = length [''id'', ''label''])"
    by code_simp
  from sync_archives_old_sheet[of "[exampleSheet, archivedSheet]" exampleConfig 0 "''10:00:01''"
      "[''id'', ''label'']" "[[''doc-1-1'', ''body'']]" examplePlatform] h
  obtain book' where b: "syncSheet examplePlatform exampleConfig ''10:00:01''
        ([''id'', ''label''] # [[''doc-1-1'', ''body'']]) [exampleSheet, archivedSheet] = Inr book'"
    "filter (\<lambda>s. sheetName s = pdfId exampleConfig) book' =
               [\<lparr>sheetName = pdfId exampleConfig,
                 grid = map (map (enterValue examplePlatform)) ([''id'', ''label''] # [[''doc-1-1'', ''body'']]),
                 backgrounds = []\<rparr>]"
    by blast
  have p: "pdfId exampleConfig = ''abcd''" by (simp add: exampleConfig_def)
  have g: "map (map (enterValue examplePlatform)) ([''id'', ''label''] # [[''doc-1-1'', ''body'']]) =
      [[Str ''id'', Str ''label''], [Str ''doc-1-1'', Str ''body'']]"
    by code_simp
  from b show ?thesis
    unfolding p g using exampleSheet_sync by simp
qed

text \<open>
  The claim as stated fails in a state that has the sheet of the id and also a sheet of
  the archival name, here an archive made at the same time of an earlier day
  (\<^verbatim>\<open>toLocaleTimeString\<close> has no date): \<^verbatim>\<open>setName\<close> throws, no new sheet is made, and the
  old sheet keeps the name of the id.
\<close>

theorem archive_name_taken_raises:
  "syncSheet examplePlatform exampleConfig ''10:00:00'' [[''id'', ''label''], [''doc-1-1'', ''body'']]
     [exampleSheet, archivedSheet] =
   Inl (ServiceException, [exampleSheet, archivedSheet])"
  by code_simp

text \<open>
  Claim C6, as the code has it. When neither file of batch 1 answers 200 the loop ends
  in its first iteration with the empty text, which parses to no row. \<^verbatim>\<open>downloadLabels\<close>
  then does not return: in \<^verbatim>\<open>do_get.gs\<close> \<^verbatim>\<open>labelData[0].includes\<close> raises a TypeError
  before any sheet is touched; in \<^verbatim>\<open>do_get.js\<close> the call ends in a fault as well.
\<close>

theorem no_first_batch_raises:
  "(\<not> batchPresent store cfg 1 \<and> parseCsv pf [] = [] \<and> 0 < fuel \<longrightarrow>
      downloadLoop_gs fuel store cfg 1 [] [] = (Some [], batchRequests cfg 1)
      \<and> downloadLabels_gs fuel pf store cfg now book = Some (Inl (TypeError, book)))
   \<and> (responseCode (store (urlLabel cfg 1)) \<noteq> 200 \<and> parseCsv pf [] = [] \<and> 0 < fuel \<longrightarrow>
      downloadLoop_js fuel store cfg 1 [] [] = (Some [], [urlLabel cfg 1])
      \<and> (\<exists>e b. downloadLabels_js fuel pf store cfg now book = Some (Inl (e, b))))"
proof (intro conjI impI)
  assume a: "\<not> batchPresent store cfg 1 \<and> parseCsv pf [] = [] \<and> 0 < fuel"
  then obtain f where f: "fuel = Suc f" by (cases fuel) auto
  show l: "downloadLoop_gs fuel store cfg 1 [] [] = (Some [], batchRequests cfg 1)"
    unfolding f downloadLoop_gs_Suc using a by simp
  show "downloadLabels_gs fuel pf store cfg now book = Some (Inl (TypeError, book))"
    unfolding downloadLabels_gs_def l using a by (simp add: reconcileLabels_def)
next
  assume a: "responseCode (store (urlLabel cfg 1)) \<noteq> 200 \<and> parseCsv pf [] = [] \<and> 0 < fuel"
  then obtain f where f: "fuel = Suc f" by (cases fuel) auto
  show l: "downloadLoop_js fuel store cfg 1 [] [] = (Some [], [urlLabel cfg 1])"
    unfolding f downloadLoop_js_Suc using a by simp
  show "\<exists>e b. downloadLabels_js fuel pf store cfg now book = Some (Inl (e, b))"
    unfolding downloadLabels_js_def l using a syncSheet_no_rows[of pf cfg now book] by simp
qed

text \<open>
  The empty bucket. In \<^verbatim>\<open>do_get.js\<close> the fault comes at \<^verbatim>\<open>labelData[0].length\<close>, after the
  old sheet was renamed and an empty sheet was made.
\<close>

theorem no_first_batch_raises_witness:
  "downloadLoop_gs 1 emptyStore exampleConfig 1 [] [] =
     (Some [], [''https://storage.googleapis.com/bucket/abcd-001-features.csv'',
                ''https://storage.googleapis.com/bucket/abcd-001-labels.csv''])
   \<and> downloadLabels_gs 1 examplePlatform emptyStore exampleConfig ''10:00:01'' [exampleSheet] =
       Some (Inl (TypeError, [exampleSheet]))
   \<and> downloadLabels_js 1 examplePlatform emptyStore exampleConfig ''10:00:01'' [exampleSheet] =
       Some (Inl (TypeError, [exampleSheet\<lparr>sheetName := ''abcd.old.10:00:01''\<rparr>,
                              \<lparr>sheetName = ''abcd'', grid = [], backgrounds = []\<rparr>]))"
proof -
  have h: "\<not> batchPresent emptyStore exampleConfig 1 \<and> parseCsv examplePlatform [] = [] \<and> (0::nat) < 1"
    by code_simp
  have u: "batchRequests exampleConfig 1 =
      [''https://storage.googleapis.com/bucket/abcd-001-features.csv'',
       ''https://storage.googleapis.com/bucket/abcd-001-labels.csv'']"
    by code_simp
  have js: "downloadLabels_js 1 examplePlatform emptyStore exampleConfig ''10:00:01'' [exampleSheet] =
       Some (Inl (TypeError, [exampleSheet\<lparr>sheetName := ''abcd.old.10:00:01''\<rparr>,
                              \<lparr>sheetName = ''abcd'', grid = [], backgrounds = []\<rparr>]))"
    by code_simp
  from no_first_batch_raises[of emptyStore exampleConfig examplePlatform 1 "''10:00:01''" "[exampleSheet]"] h
  have "downloadLoop_gs 1 emptyStore exampleConfig 1 [] [] = (Some [], batchRequests exampleConfig 1)
      \<and> downloadLabels_gs 1 examplePlatform emptyStore exampleConfig ''10:00:01'' [exampleSheet] =
          Some (Inl (TypeError, [exampleSheet]))"
    by blast
  then show ?thesis unfolding u using js by simp
qed

text \<open>
  The claim as stated fails: with no first batch the loader yields the empty text and
  the empty row sequence, and \<^verbatim>\<open>downloadLabels\<close> raises a TypeError on it.
\<close>

theorem empty_rows_are_not_handled:
  "fst (downloadLoop_gs 1 emptyStore exampleConfig 1 [] []) = Some []
   \<and> parseCsv examplePlatform [] = []
   \<and> downloadLabels_gs 1 examplePlatform emptyStore exampleConfig ''10:00:01'' [] = Some (Inl (TypeError, []))"
  by code_simp

text \<open>
  Claim C10. When \<^verbatim>\<open>downloadLabels\<close> of \<^verbatim>\<open>do_get.gs\<close> has returned, on a platform whose
  sheets store the text \<^verbatim>\<open>label\<close> as that text, the sheet it made, the last of the
  spreadsheet, is the sheet of the id; its header can be read and holds \<^verbatim>\<open>label\<close>; and
  the column that \<^verbatim>\<open>updateLabel\<close> computes for it, \<^verbatim>\<open>indexOf('label') + 1\<close>, is positive.
\<close>

theorem downloaded_sheet_has_label_column:
  assumes "enterValue pf ''label'' = Str ''label''"
    and "downloadLabels_gs fuel pf store cfg now book = Some (Inr book')"
  shows "\<exists>sheet headerList.
           getSheet cfg book' = Some sheet \<and> sheet = last book' \<and>
           getHeaderList cfg book' = Inr headerList \<and>
           Str ''label'' \<in> set headerList \<and>
           0 < indexOf headerList (Str ''label'') + 1"
proof -
  from assms(2) obtain csv labelData where
    rec: "reconcileLabels (parseCsv pf csv) = Inr labelData" and
    sync: "syncSheet pf cfg now labelData book = Inr book'"
    by (auto simp add: downloadLabels_gs_def split: option.splits sum.splits)
  from reconcileLabels_has_label[OF rec] have ld: "labelData \<noteq> []" "''label'' \<in> set (labelData ! 0)"
    by simp_all
  let ?new = "\<lparr>sheetName = pdfId cfg, grid = map (map (enterValue pf)) labelData, backgrounds = []\<rparr>"
  from syncSheet_Inr[OF sync] obtain book1 where
    free: "pdfId cfg \<notin> set (map sheetName book1)" and b: "book' = book1 @ [?new]"
    by blast
  have first: "sheetIndex book' (pdfId cfg) = Some (length book1)"
  proof (rule sheetIndex_first)
    show "length book1 < length book'" using b by simp
    show "sheetName (book' ! length book1) = pdfId cfg" using b by simp
    show "\<forall>j < length book1. sheetName (book' ! j) \<noteq> pdfId cfg"
    proof (intro allI impI)
      fix j assume j: "j < length book1"
      then have "book1 ! j \<in> set book1" by (rule nth_mem)
      then have "sheetName (book1 ! j) \<in> set (map sheetName book1)" by (rule name_mem)
      then have "sheetName (book1 ! j) \<noteq> pdfId cfg" using free by metis
      then show "sheetName (book' ! j) \<noteq> pdfId cfg" using j b by (simp add: nth_append)
    qed
  qed
  have get: "getSheet cfg book' = Some ?new"
    unfolding getSheet_def getSheetByName_def first using b by simp
  have lst: "?new = last book'" using b by simp
  let ?g = "map (map (enterValue pf)) labelData"
  have g0: "?g \<noteq> []" using ld(1) by simp
  have "?g ! 0 = map (enterValue pf) (labelData ! 0)" using ld(1) by (simp add: nth_map)
  then have "enterValue pf ''label'' \<in> set (?g ! 0)" using ld(2) by simp
  then have in0: "Str ''label'' \<in> set (?g ! 0)" using assms(1) by simp
  have ne: "Str ''label'' \<noteq> emptyCell" by (simp add: emptyCell_def)
  from header_contains[OF g0 in0 ne] obtain hs where
    hs: "getValues ?g 1 1 1 (getLastColumn ?g) = Inr hs" "Str ''label'' \<in> set (hs ! 0)"
    by blast
  have h: "getHeaderList cfg book' = Inr (hs ! 0)"
    unfolding getHeaderList_def get using hs(1) by simp
  from indexOf_mem[OF hs(2)] have "0 < indexOf (hs ! 0) (Str ''label'') + 1" by simp
  then show ?thesis using get lst h hs(2) by blast
qed

text \<open>The two batches of the example bucket; the features file of batch 1 has no \<^verbatim>\<open>label\<close>.\<close>

theorem downloaded_sheet_has_label_column_witness:
  "downloadLabels_gs 3 examplePlatform exampleStore exampleConfig ''10:00:01'' [exampleSheet, archivedSheet] =
     Some (Inr [exampleSheet\<lparr>sheetName := ''abcd.old.10:00:01''\<rparr>, archivedSheet,
                \<lparr>sheetName = ''abcd'',
                 grid = [[Str ''id'', Str ''text'', Str ''area'', Str ''label''],
                         [Str ''doc-3-1'', Str ''hello'', Num 50, Str ''other''],
                         [Str ''doc-3-2'', Str ''world'', Num 200, Str ''other''],
                         [Str ''doc-4-1'', Str ''again'', Num 10, Str ''other'']],
                 backgrounds = []\<rparr>])
   \<and> getHeaderList exampleConfig
        [exampleSheet\<lparr>sheetName := ''abcd.old.10:00:01''\<rparr>, archivedSheet,
         \<lparr>sheetName = ''abcd'',
          grid = [[Str ''id'', Str ''text'', Str ''area'', Str ''label''],
                  [Str ''doc-3-1'', Str ''hello'', Num 50, Str ''other''],
                  [Str ''doc-3-2'', Str ''world'', Num 200, Str ''other''],
                  [Str ''doc-4-1'', Str ''again'', Num 10, Str ''other'']],
          backgrounds = []\<rparr>] =
       Inr [Str ''id'', Str ''text'', Str ''area'', Str ''label'']
   \<and> indexOf [Str ''id'', Str ''text'', Str ''area'', Str ''label''] (Str ''label'') + 1 = 4"
proof -
  let ?book = "[exampleSheet\<lparr>sheetName := ''abcd.old.10:00:01''\<rparr>, archivedSheet,
         \<lparr>sheetName = ''abcd'',
          grid = [[Str ''id'', Str ''text'', Str ''area'', Str ''label''],
                  [Str ''doc-3-1'', Str ''hello'', Num 50, Str ''other''],
                  [Str ''doc-3-2'', Str ''world'', Num 200, Str ''other''],
                  [Str ''doc-4-1'', Str ''again'', Num 10, Str ''other'']],
          backgrounds = []\<rparr>]"
  have e: "enterValue examplePlatform ''label'' = Str ''label''" by code_simp
  have h: "getHeaderList exampleConfig ?book = Inr [Str ''id'', Str ''text'', Str ''area'', Str ''label'']"
    by code_simp
  have i: "indexOf [Str ''id'', Str ''text'', Str ''area'', Str ''label''] (Str ''label'') + 1 = 4"
    by code_simp
  from downloaded_sheet_has_label_column[OF e example_download]
  obtain headerList where "getHeaderList exampleConfig ?book = Inr headerList"
    "0 < indexOf headerList (Str ''label'') + 1"
    by blast
  then show ?thesis using example_download h i by simp
qed

end
